theory Spec2Isabelle
  imports Main
begin

section \<open>Python values\<close>

text \<open>
  A Python \<^verbatim>\<open>str\<close> is a sequence of Unicode code points, and slicing and \<^verbatim>\<open>len\<close> count
  code points. It is modelled as a list of code points (natural numbers); the ASCII
  literals of \<^verbatim>\<open>etl.py\<close> are written \<open>u ''...''\<close>.
\<close>

type_synonym pystr = "nat list"

definition u :: "string \<Rightarrow> pystr" where
  "u s = map of_char s"

definition nl :: pystr where
  "nl = [10]"

definition sp :: "nat \<Rightarrow> pystr" where
  "sp n = replicate n 32"

text \<open>\<^verbatim>\<open>sep.join(xs)\<close>\<close>

fun join :: "pystr \<Rightarrow> pystr list \<Rightarrow> pystr" where
  "join sep [] = []"
| "join sep [x] = x"
| "join sep (x # y # ys) = x @ sep @ join sep (y # ys)"

text \<open>\<^verbatim>\<open>str(n)\<close> for an \<^verbatim>\<open>int\<close>.\<close>

fun digits_of_nat :: "nat \<Rightarrow> pystr" where
  "digits_of_nat n = (if n < 10 then [48 + n] else digits_of_nat (n div 10) @ [48 + n mod 10])"

declare digits_of_nat.simps [simp del]

definition str_int :: "int \<Rightarrow> pystr" where
  "str_int i = (if i < 0 then 45 # digits_of_nat (nat (- i)) else digits_of_nat (nat i))"

text \<open>
  The cells of a \<^verbatim>\<open>DataFrame\<close>, as values of Python: \<^verbatim>\<open>None\<close>, the float \<^verbatim>\<open>nan\<close>,
  \<^verbatim>\<open>pd.NaT\<close>, \<^verbatim>\<open>pd.NA\<close>, booleans, integers, finite floats and strings. The embedding does
  not compute with floats: a finite float is carried as the text that \<^verbatim>\<open>str\<close> prints for
  it.
\<close>

datatype cell = CNone | CNaN | CNaT | CNA | CBool bool | CInt int | CFloat pystr | CStr pystr

text \<open>\<^verbatim>\<open>pd.isna(x)\<close> on a scalar.\<close>

fun isna :: "cell \<Rightarrow> bool" where
  "isna CNone = True"
| "isna CNaN = True"
| "isna CNaT = True"
| "isna CNA = True"
| "isna _ = False"

text \<open>\<^verbatim>\<open>str(x)\<close>, which is what \<^verbatim>\<open>astype(str)\<close> applies to every element.\<close>

fun py_str :: "cell \<Rightarrow> pystr" where
  "py_str CNone = u ''None''"
| "py_str CNaN = u ''nan''"
| "py_str CNaT = u ''NaT''"
| "py_str CNA = u ''<NA>''"
| "py_str (CBool b) = (if b then u ''True'' else u ''False'')"
| "py_str (CInt i) = str_int i"
| "py_str (CFloat r) = r"
| "py_str (CStr s) = s"

text \<open>
  A \<^verbatim>\<open>DataFrame\<close> is column oriented: the header names in order, each with the dtype of
  its column and the values of the column (all columns of a frame have the same length).
  The dtypes are those that \<^verbatim>\<open>read_csv\<close> infers: \<^verbatim>\<open>int64\<close>, \<^verbatim>\<open>uint64\<close> (for integers
  above the range of \<^verbatim>\<open>int64\<close>), \<^verbatim>\<open>float64\<close>, \<^verbatim>\<open>bool\<close> and \<^verbatim>\<open>object\<close>.
  \<^verbatim>\<open>df.columns.tolist()\<close> is the list of names.
\<close>

datatype dtype = Int64 | UInt64 | Float64 | Bool | Object

type_synonym dataframe = "(pystr \<times> dtype \<times> cell list) list"

definition columns :: "dataframe \<Rightarrow> pystr list" where
  "columns df = map fst df"

definition dtypes :: "dataframe \<Rightarrow> dtype list" where
  "dtypes df = map (\<lambda>(name, dt, vs). dt) df"

text \<open>The rows of the frame, cell by cell.\<close>

definition frame_rows :: "dataframe \<Rightarrow> cell list list" where
  "frame_rows df = transpose (map (\<lambda>(name, dt, vs). vs) df)"

text \<open>
  \<^verbatim>\<open>df.to_numpy()\<close> is one array, of the common dtype of the columns: the dtype that all
  columns share, \<^verbatim>\<open>float64\<close> for any other mixture of the numeric dtypes (\<^verbatim>\<open>int64\<close> next
  to \<^verbatim>\<open>float64\<close>, but also \<^verbatim>\<open>int64\<close> next to \<^verbatim>\<open>uint64\<close>), and \<^verbatim>\<open>object\<close> for every
  mixture with \<^verbatim>\<open>object\<close> or \<^verbatim>\<open>bool\<close>. The elements of an array of \<^verbatim>\<open>object\<close>, of integers or
  of \<^verbatim>\<open>bool\<close> are the cells of the frame; in an array of \<^verbatim>\<open>float64\<close> an integer is cast to
  the float nearest to it, \<open>FloatOf i\<close>. The scalar types of numpy are not told apart from
  those of Python.
\<close>

definition find_common_type :: "dtype list \<Rightarrow> dtype" where
  "find_common_type ds =
     (if ds \<noteq> [] \<and> list_all (\<lambda>d. d = hd ds) ds then hd ds
      else if list_all (\<lambda>d. d = Int64 \<or> d = UInt64 \<or> d = Float64) ds then Float64
      else Object)"

datatype elem = Cell cell | FloatOf int

fun astype :: "dtype \<Rightarrow> cell \<Rightarrow> elem" where
  "astype Float64 (CInt i) = FloatOf i"
| "astype dt x = Cell x"

definition to_numpy :: "dataframe \<Rightarrow> elem list list" where
  "to_numpy df = map (map (astype (find_common_type (dtypes df)))) (frame_rows df)"

section \<open>Configuration\<close>

text \<open>
  The module-level dictionaries \<^verbatim>\<open>TABLE_FILE_MAPPING\<close> and \<^verbatim>\<open>PRIMARY_KEYS\<close>, as their items
  in insertion order. \<^verbatim>\<open>DATA_DIR\<close> is set from the location of the script, so the mapping
  takes it as an argument; the path separator is that of \<^verbatim>\<open>os.path.join\<close> on Windows,
  the only platform on which the module defines \<^verbatim>\<open>DATA_DIR\<close>.
\<close>

definition path_join :: "pystr \<Rightarrow> pystr \<Rightarrow> pystr" where
  "path_join d f = d @ [92] @ f"

definition TABLE_FILE_MAPPING :: "pystr \<Rightarrow> (pystr \<times> pystr) list" where
  "TABLE_FILE_MAPPING data_dir =
    [(u ''ds.ft_balance_f'', path_join data_dir (u ''ft_balance_f.csv'')),
     (u ''ds.ft_posting_f'', path_join data_dir (u ''ft_posting_f.csv'')),
     (u ''ds.md_account_d'', path_join data_dir (u ''md_account_d.csv'')),
     (u ''ds.md_currency_d'', path_join data_dir (u ''md_currency_d.csv'')),
     (u ''ds.md_exchange_rate_d'', path_join data_dir (u ''md_exchange_rate_d.csv'')),
     (u ''ds.md_ledger_account_s'', path_join data_dir (u ''md_ledger_account_s.csv''))]"

definition PRIMARY_KEYS :: "(pystr \<times> pystr list option) list" where
  "PRIMARY_KEYS =
    [(u ''ds.ft_balance_f'', Some [u ''on_date'', u ''account_rk'']),
     (u ''ds.ft_posting_f'', None),
     (u ''ds.md_account_d'', Some [u ''data_actual_date'', u ''account_rk'']),
     (u ''ds.md_currency_d'', Some [u ''currency_rk'', u ''data_actual_date'']),
     (u ''ds.md_exchange_rate_d'', Some [u ''data_actual_date'', u ''currency_rk'']),
     (u ''ds.md_ledger_account_s'', Some [u ''ledger_account'', u ''start_date''])]"

text \<open>\<^verbatim>\<open>d.get(k)\<close>: \<^verbatim>\<open>None\<close> for an absent key and for a key stored with \<^verbatim>\<open>None\<close>.\<close>

definition dict_get :: "('k \<times> 'v option) list \<Rightarrow> 'k \<Rightarrow> 'v option" where
  "dict_get d k = (case map_of d k of None \<Rightarrow> None | Some v \<Rightarrow> v)"

section \<open>The insert statement (\<^verbatim>\<open>load_data_from_csv\<close>, lines 179 to 199)\<close>

text \<open>\<^verbatim>\<open>f'"{col}"'\<close> and \<^verbatim>\<open>f'"{col}" = EXCLUDED."{col}"'\<close>\<close>

definition quoted :: "pystr \<Rightarrow> pystr" where
  "quoted col = [34] @ col @ [34]"

definition excluded_assignment :: "pystr \<Rightarrow> pystr" where
  "excluded_assignment col = quoted col @ u '' = EXCLUDED.'' @ quoted col"

text \<open>
  The statement text as the code builds it. The dictionary of primary keys is read from
  the module; it is an argument here. The branch is taken when \<^verbatim>\<open>PRIMARY_KEYS.get\<close>
  is truthy: a list that is not empty.
\<close>

definition insert_query :: "(pystr \<times> pystr list option) list \<Rightarrow> pystr \<Rightarrow> pystr list \<Rightarrow> pystr" where
  "insert_query primary_keys table_name cols =
    (let columns_str = join (u '', '') (map quoted cols);
         placeholders = join (u '', '') (replicate (length cols) (u ''%s''));
         q = nl @ sp 8 @ u ''INSERT INTO '' @ table_name @ u '' ('' @ columns_str @ u '')'' @
             nl @ sp 8 @ u ''VALUES ('' @ placeholders @ u '')'' @ nl @ sp 8
     in case dict_get primary_keys table_name of
          None \<Rightarrow> q
        | Some pk \<Rightarrow>
            if pk = [] then q
            else
              let conflict_columns = join (u '', '') (map quoted pk);
                  update_columns =
                    join (u '', '') (map excluded_assignment (filter (\<lambda>col. col \<notin> set pk) cols))
              in q @ nl @ sp 12 @ u ''ON CONFLICT ('' @ conflict_columns @ u '') '' @
                 nl @ sp 12 @ u ''DO UPDATE SET '' @ update_columns @ nl @ sp 12)"

text \<open>
  The planned statement in the words of the specification: a parameterized insert over
  the columns, and a conflict clause given by its key columns and the columns it
  assigns from \<^verbatim>\<open>EXCLUDED\<close>.
\<close>

definition plain_insert :: "pystr \<Rightarrow> pystr list \<Rightarrow> pystr" where
  "plain_insert table_name cols =
     nl @ sp 8 @ u ''INSERT INTO '' @ table_name @ u '' ('' @ join (u '', '') (map quoted cols) @
     u '')'' @ nl @ sp 8 @ u ''VALUES ('' @ join (u '', '') (map (\<lambda>c. u ''%s'') cols) @ u '')'' @
     nl @ sp 8"

definition conflict_clause :: "pystr list \<Rightarrow> pystr list \<Rightarrow> pystr" where
  "conflict_clause keys assigned =
     nl @ sp 12 @ u ''ON CONFLICT ('' @ join (u '', '') (map quoted keys) @ u '') '' @
     nl @ sp 12 @ u ''DO UPDATE SET '' @ join (u '', '') (map excluded_assignment assigned) @
     nl @ sp 12"

section \<open>The parameter tuples (\<^verbatim>\<open>load_data_from_csv\<close>, line 176)\<close>

text \<open>\<^verbatim>\<open>pd.isna(x)\<close> on an element of the array, and the comprehension of line 176.\<close>

fun isna_elem :: "elem \<Rightarrow> bool" where
  "isna_elem (Cell x) = isna x"
| "isna_elem (FloatOf i) = False"

definition data_tuples :: "dataframe \<Rightarrow> elem list list" where
  "data_tuples df = map (\<lambda>row. map (\<lambda>x. if isna_elem x then Cell CNone else x) row) (to_numpy df)"

section \<open>Exceptions\<close>

text \<open>
  The exceptions that reach an \<^verbatim>\<open>except Exception\<close> clause, each with the text that
  \<^verbatim>\<open>str(e)\<close> gives. \<open>Error\<close> stands for every other subclass of \<^verbatim>\<open>Exception\<close> that the
  libraries raise (\<^verbatim>\<open>psycopg2.Error\<close>, \<^verbatim>\<open>OSError\<close>, \<^verbatim>\<open>UnicodeDecodeError\<close>, the parser
  errors of pandas). What is not an \<^verbatim>\<open>Exception\<close> (\<^verbatim>\<open>KeyboardInterrupt\<close>, \<^verbatim>\<open>SystemExit\<close>) is
  not modelled.
\<close>

datatype exc = ValueError pystr | KeyError pystr | TypeError pystr | Error pystr

fun str_exc :: "exc \<Rightarrow> pystr" where
  "str_exc (ValueError m) = m"
| "str_exc (KeyError m) = m"
| "str_exc (TypeError m) = m"
| "str_exc (Error m) = m"

definition py_repr_str :: "pystr \<Rightarrow> pystr" where
  "py_repr_str s = [39] @ s @ [39]"

definition py_repr_list :: "pystr list \<Rightarrow> pystr" where
  "py_repr_list xs = u ''['' @ join (u '', '') (map py_repr_str xs) @ u '']''"

section \<open>Normalization (\<^verbatim>\<open>load_data_from_csv\<close>, lines 153 to 167)\<close>

subsection \<open>The header: \<^verbatim>\<open>df.columns.str.strip().str.lower()\<close>\<close>

text \<open>
  \<^verbatim>\<open>str.strip()\<close> removes the white space of Unicode at both ends. \<^verbatim>\<open>str.lower()\<close> is
  given for the Basic Latin, Latin-1 and Cyrillic capitals; the case mappings of other
  scripts are left out (their letters stay as they are).
\<close>

definition is_space :: "nat \<Rightarrow> bool" where
  "is_space c = ((9 \<le> c \<and> c \<le> 13) \<or> (28 \<le> c \<and> c \<le> 32) \<or> c = 133 \<or> c = 160 \<or> c = 5760 \<or>
     (8192 \<le> c \<and> c \<le> 8202) \<or> c = 8232 \<or> c = 8233 \<or> c = 8239 \<or> c = 8287 \<or> c = 12288)"

definition str_strip :: "pystr \<Rightarrow> pystr" where
  "str_strip s = rev (dropWhile is_space (rev (dropWhile is_space s)))"

definition lower_char :: "nat \<Rightarrow> nat" where
  "lower_char c =
     (if 65 \<le> c \<and> c \<le> 90 then c + 32
      else if 192 \<le> c \<and> c \<le> 222 \<and> c \<noteq> 215 then c + 32
      else if 1040 \<le> c \<and> c \<le> 1071 then c + 32
      else if 1024 \<le> c \<and> c \<le> 1039 then c + 80
      else c)"

definition str_lower :: "pystr \<Rightarrow> pystr" where
  "str_lower s = map lower_char s"

definition normalize_columns :: "dataframe \<Rightarrow> dataframe" where
  "normalize_columns df = map (\<lambda>(name, col). (str_lower (str_strip name), col)) df"

subsection \<open>Column access\<close>

text \<open>
  \<^verbatim>\<open>df[col]\<close> is a \<^verbatim>\<open>Series\<close> when the header holds \<open>col\<close> once, and a sub-frame of all
  the columns of that name when it holds it several times (possible after the header
  was lower-cased and stripped); it raises \<^verbatim>\<open>KeyError\<close> when the name is absent. A column
  that is assigned the result of \<^verbatim>\<open>astype(str)\<close>, \<^verbatim>\<open>replace\<close>, \<^verbatim>\<open>apply\<close> or \<^verbatim>\<open>strftime\<close> has
  the dtype \<^verbatim>\<open>object\<close>.
\<close>

definition count_col :: "pystr \<Rightarrow> dataframe \<Rightarrow> nat" where
  "count_col col df = length (filter (\<lambda>name. name = col) (columns df))"

definition map_column :: "pystr \<Rightarrow> (cell \<Rightarrow> cell) \<Rightarrow> dataframe \<Rightarrow> dataframe" where
  "map_column col f df =
     map (\<lambda>(name, dt, vs). if name = col then (name, Object, map f vs) else (name, dt, vs)) df"

definition column_values :: "pystr \<Rightarrow> dataframe \<Rightarrow> cell list list" where
  "column_values col df = map (\<lambda>(name, dt, vs). vs) (filter (\<lambda>(name, col'). name = col) df)"

subsection \<open>The balance table: \<^verbatim>\<open>pd.to_datetime(..., format='%d.%m.%Y', errors='coerce')\<close>\<close>

text \<open>
  The directives as \<^verbatim>\<open>strptime\<close> matches them, each with the full stop that follows it
  in the format: \<^verbatim>\<open>%d\<close> is \<^verbatim>\<open>3[0-1]|[1-2]\d|0[1-9]|[1-9]| [1-9]\<close>, \<^verbatim>\<open>%m\<close> is
  \<^verbatim>\<open>1[0-2]|0[1-9]|[1-9]\<close> and \<^verbatim>\<open>%Y\<close> is \<^verbatim>\<open>\d\d\d\d\<close>; the whole string must match. The
  classes in brackets hold ASCII digits, but \<^verbatim>\<open>\d\<close> matches every decimal digit of
  Unicode, and \<^verbatim>\<open>int\<close> reads each of them with its value. The decimal digits come in
  runs of ten, from the zero to the nine of a script; \<open>nd_zeros\<close> lists the zeros (of
  Unicode 14, the version of Python 3.11).
\<close>

definition nd_zeros :: "nat list" where
  "nd_zeros =
     [48, 1632, 1776, 1984, 2406, 2534, 2662, 2790, 2918, 3046, 3174, 3302, 3430, 3558, 3664,
      3792, 3872, 4160, 4240, 6112, 6160, 6470, 6608, 6784, 6800, 6992, 7088, 7232, 7248,
      42528, 43216, 43264, 43472, 43504, 43600, 44016, 65296, 66720, 68912, 69734, 69872,
      69942, 70096, 70384, 70736, 70864, 71248, 71360, 71472, 71904, 72016, 72784, 73040,
      73120, 92768, 92864, 93008, 120782, 120792, 120802, 120812, 120822, 123200, 123632,
      125264, 130032]"

definition digit_value :: "nat \<Rightarrow> nat option" where
  "digit_value c = map_option (\<lambda>z. c - z) (find (\<lambda>z. z \<le> c \<and> c < z + 10) nd_zeros)"

definition day_field :: "pystr \<Rightarrow> (nat \<times> pystr) option" where
  "day_field s =
     (case s of
        a # b # r \<Rightarrow>
          if b = 46 then (if 49 \<le> a \<and> a \<le> 57 then Some (a - 48, r) else None)
          else (case r of
                  c # r' \<Rightarrow>
                    if c \<noteq> 46 then None
                    else if a = 51 \<and> (b = 48 \<or> b = 49) then Some (30 + (b - 48), r')
                    else if a = 49 \<or> a = 50
                         then map_option (\<lambda>v. (10 * (a - 48) + v, r')) (digit_value b)
                    else if (a = 48 \<or> a = 32) \<and> 49 \<le> b \<and> b \<le> 57 then Some (b - 48, r')
                    else None
                | [] \<Rightarrow> None)
      | _ \<Rightarrow> None)"

definition month_field :: "pystr \<Rightarrow> (nat \<times> pystr) option" where
  "month_field s =
     (case s of
        a # b # r \<Rightarrow>
          if b = 46 then (if 49 \<le> a \<and> a \<le> 57 then Some (a - 48, r) else None)
          else (case r of
                  c # r' \<Rightarrow>
                    if c \<noteq> 46 then None
                    else if a = 49 \<and> 48 \<le> b \<and> b \<le> 50 then Some (10 + (b - 48), r')
                    else if a = 48 \<and> 49 \<le> b \<and> b \<le> 57 then Some (b - 48, r')
                    else None
                | [] \<Rightarrow> None)
      | _ \<Rightarrow> None)"

definition year_field :: "pystr \<Rightarrow> nat option" where
  "year_field s =
     (case s of
        [a, b, c, d] \<Rightarrow>
          (case (digit_value a, digit_value b, digit_value c, digit_value d) of
             (Some va, Some vb, Some vc, Some vd) \<Rightarrow> Some (1000 * va + 100 * vb + 10 * vc + vd)
           | _ \<Rightarrow> None)
      | _ \<Rightarrow> None)"

definition is_leap :: "nat \<Rightarrow> bool" where
  "is_leap y = (y mod 4 = 0 \<and> (y mod 100 \<noteq> 0 \<or> y mod 400 = 0))"

definition days_in_month :: "nat \<Rightarrow> nat \<Rightarrow> nat" where
  "days_in_month y m =
     (if m = 2 then (if is_leap y then 29 else 28)
      else if m = 4 \<or> m = 6 \<or> m = 9 \<or> m = 11 then 30 else 31)"

text \<open>
  A date is kept when it is a date of the calendar and a \<^verbatim>\<open>Timestamp\<close> of nanosecond
  resolution holds it: from 1677-09-22 to 2262-04-11 (nanoseconds are the resolution of
  \<^verbatim>\<open>to_datetime\<close> in pandas 1 and 2). Every other value is coerced to \<^verbatim>\<open>NaT\<close> (\<open>None\<close>
  here).
\<close>

definition valid_date :: "nat \<times> nat \<times> nat \<Rightarrow> bool" where
  "valid_date ymd =
     (case ymd of (y, m, d) \<Rightarrow>
        1 \<le> m \<and> m \<le> 12 \<and> 1 \<le> d \<and> d \<le> days_in_month y m \<and>
        (1677 < y \<or> (y = 1677 \<and> (9 < m \<or> (m = 9 \<and> 22 \<le> d)))) \<and>
        (y < 2262 \<or> (y = 2262 \<and> (m < 4 \<or> (m = 4 \<and> d \<le> 11)))))"

definition strptime_dmy :: "pystr \<Rightarrow> (nat \<times> nat \<times> nat) option" where
  "strptime_dmy s =
     (case day_field s of
        None \<Rightarrow> None
      | Some (d, r) \<Rightarrow>
          (case month_field r of
             None \<Rightarrow> None
           | Some (m, r') \<Rightarrow>
               (case year_field r' of
                  None \<Rightarrow> None
                | Some y \<Rightarrow> if valid_date (y, m, d) then Some (y, m, d) else None)))"

text \<open>
  One element of the column: a null is \<^verbatim>\<open>NaT\<close>, a string is matched, and every other
  value (a number, a boolean) is matched through its \<^verbatim>\<open>str\<close>. With \<^verbatim>\<open>errors='coerce'\<close> what
  does not match is \<^verbatim>\<open>NaT\<close>, so the call does not raise.
\<close>

definition to_datetime_cell :: "cell \<Rightarrow> (nat \<times> nat \<times> nat) option" where
  "to_datetime_cell c = (if isna c then None else strptime_dmy (py_str c))"

definition to_datetime :: "cell list \<Rightarrow> (nat \<times> nat \<times> nat) option list" where
  "to_datetime vs = map to_datetime_cell vs"

text \<open>\<^verbatim>\<open>.dt.strftime('%Y-%m-%d')\<close>: \<^verbatim>\<open>NaT\<close> gives \<^verbatim>\<open>nan\<close>.\<close>

definition two_digits :: "nat \<Rightarrow> pystr" where
  "two_digits n = [48 + n div 10 mod 10, 48 + n mod 10]"

definition four_digits :: "nat \<Rightarrow> pystr" where
  "four_digits n = [48 + n div 1000 mod 10, 48 + n div 100 mod 10, 48 + n div 10 mod 10, 48 + n mod 10]"

definition strftime_ymd :: "(nat \<times> nat \<times> nat) option \<Rightarrow> cell" where
  "strftime_ymd t =
     (case t of
        None \<Rightarrow> CNaN
      | Some (y, m, d) \<Rightarrow> CStr (four_digits y @ [45] @ two_digits m @ [45] @ two_digits d))"

text \<open>
  Line 157. With the name absent \<^verbatim>\<open>df['on_date']\<close> raises \<^verbatim>\<open>KeyError\<close>; with the name
  repeated it is a frame, which \<^verbatim>\<open>pd.to_datetime\<close> refuses (it assembles dates from
  columns named year, month and day).
\<close>

fun assign_column :: "pystr \<Rightarrow> cell list \<Rightarrow> dataframe \<Rightarrow> dataframe" where
  "assign_column col new [] = []"
| "assign_column col new ((name, dt, vs) # df) =
     (if name = col then (name, Object, new) # df else (name, dt, vs) # assign_column col new df)"

definition on_date_step :: "dataframe \<Rightarrow> exc + dataframe" where
  "on_date_step df =
     (case column_values (u ''on_date'') df of
        [] \<Rightarrow> Inl (KeyError (py_repr_str (u ''on_date'')))
      | [vs] \<Rightarrow> Inr (assign_column (u ''on_date'') (map strftime_ymd (to_datetime vs)) df)
      | _ \<Rightarrow> Inl (ValueError (u ''to assemble mappings requires at least that [year, month, day] be specified: [day,month,year] is missing'')))"

subsection \<open>The currency table (lines 160 to 167)\<close>

text \<open>
  \<^verbatim>\<open>astype(str).replace(['nan', 'None', '<NA>'], None)\<close> on one element (the explicit
  \<^verbatim>\<open>None\<close> is the replacement value, as pandas takes it from version 1.4 on), and the
  function that \<^verbatim>\<open>apply\<close> is given.
\<close>

definition astype_str_replace :: "cell \<Rightarrow> cell" where
  "astype_str_replace c =
     (if py_str c \<in> set [u ''nan'', u ''None'', u ''<NA>''] then CNone else CStr (py_str c))"

definition first_three :: "cell \<Rightarrow> cell" where
  "first_three x = (case x of CStr s \<Rightarrow> CStr (take 3 s) | _ \<Rightarrow> x)"

text \<open>
  The body of the loop over \<^verbatim>\<open>str_cols\<close>. When the name is repeated, \<^verbatim>\<open>df[col]\<close> is a frame:
  \<^verbatim>\<open>astype\<close> and \<^verbatim>\<open>replace\<close> still work element by element, but \<^verbatim>\<open>apply\<close> hands whole
  columns to the function, which returns what is not a \<^verbatim>\<open>str\<close> as it is.
\<close>

definition currency_step :: "pystr \<Rightarrow> dataframe \<Rightarrow> dataframe" where
  "currency_step col df =
     (if col \<in> set (columns df) then
        (if count_col col df = 1 then map_column col first_three (map_column col astype_str_replace df)
         else map_column col astype_str_replace df)
      else df)"

definition normalize :: "pystr \<Rightarrow> dataframe \<Rightarrow> exc + dataframe" where
  "normalize table_name df0 =
     (let df = normalize_columns df0 in
      case (if table_name = u ''ds.ft_balance_f'' then on_date_step df else Inr df) of
        Inl e \<Rightarrow> Inl e
      | Inr df1 \<Rightarrow>
          Inr (if table_name = u ''ds.md_currency_d''
               then currency_step (u ''code_iso_char'') (currency_step (u ''currency_code'') df1)
               else df1))"

subsection \<open>The shape of an ISO date\<close>

text \<open>
  Four digits, a hyphen, two digits of a month from 01 to 12, a hyphen and two digits of a
  day from 01 to 31: what \<^verbatim>\<open>%Y-%m-%d\<close> prints.
\<close>

definition is_ascii_digit :: "nat \<Rightarrow> bool" where
  "is_ascii_digit c = (48 \<le> c \<and> c \<le> 57)"

definition is_iso_date :: "pystr \<Rightarrow> bool" where
  "is_iso_date s =
     (case s of
        [y1, y2, y3, y4, h1, m1, m2, h2, d1, d2] \<Rightarrow>
          is_ascii_digit y1 \<and> is_ascii_digit y2 \<and> is_ascii_digit y3 \<and> is_ascii_digit y4 \<and>
          h1 = 45 \<and> is_ascii_digit m1 \<and> is_ascii_digit m2 \<and> h2 = 45 \<and>
          is_ascii_digit d1 \<and> is_ascii_digit d2 \<and>
          1 \<le> 10 * (m1 - 48) + (m2 - 48) \<and> 10 * (m1 - 48) + (m2 - 48) \<le> 12 \<and>
          1 \<le> 10 * (d1 - 48) + (d2 - 48) \<and> 10 * (d1 - 48) + (d2 - 48) \<le> 31
      | _ \<Rightarrow> False)"

subsection \<open>The conversion of a date, in the words of the specification\<close>

text \<open>
  The specification has the \<^verbatim>\<open>on_date\<close> column reformatted from the day.month.year textual
  form to ISO year-month-day, with what cannot be parsed turned into a null. The
  definitions of this subsection say so without the matcher above: a text is cut at its
  full stops (as \<^verbatim>\<open>str.split\<close> does), its three pieces are read as decimal numbers, the
  numbers have to be a date of the calendar that a \<^verbatim>\<open>Timestamp\<close> holds, and the date is
  printed as zero-padded decimal numbers with hyphens between them.
\<close>

fun split_on :: "nat \<Rightarrow> pystr \<Rightarrow> pystr list" where
  "split_on sep [] = [[]]"
| "split_on sep (c # cs) =
     (if c = sep then [] # split_on sep cs
      else (case split_on sep cs of f # fs \<Rightarrow> (c # f) # fs | [] \<Rightarrow> [[c]]))"

definition decimal :: "pystr \<Rightarrow> nat option" where
  "decimal s =
     (if s = [] then None
      else map_option (foldl (\<lambda>n v. 10 * n + v) 0) (those (map digit_value s)))"

text \<open>
  A day is written with one or two digits, or with a blank and one digit, and is a number
  from 1 to 31; a month is written with one or two digits and is a number from 1 to 12; a
  year is written with four digits. The digits of a day and of a month are ASCII, except
  the second digit of a day after 1 or 2; those of a year are any decimal digits.
\<close>

definition spec_day :: "pystr \<Rightarrow> nat option" where
  "spec_day D =
     (case decimal (if length D = 2 \<and> hd D = 32 then tl D else D) of
        None \<Rightarrow> None
      | Some d \<Rightarrow>
          if length D \<le> 2 \<and> 1 \<le> d \<and> d \<le> 31 \<and> (is_ascii_digit (hd D) \<or> hd D = 32) \<and>
             (is_ascii_digit (last D) \<or> hd D = 49 \<or> hd D = 50)
          then Some d else None)"

definition spec_month :: "pystr \<Rightarrow> nat option" where
  "spec_month M =
     (case decimal M of
        None \<Rightarrow> None
      | Some m \<Rightarrow>
          if length M \<le> 2 \<and> 1 \<le> m \<and> m \<le> 12 \<and> list_all is_ascii_digit M then Some m else None)"

definition spec_year :: "pystr \<Rightarrow> nat option" where
  "spec_year Y = (if length Y = 4 then decimal Y else None)"

definition spec_dmy :: "pystr \<Rightarrow> (nat \<times> nat \<times> nat) option" where
  "spec_dmy s =
     (case split_on 46 s of
        [D, M, Y] \<Rightarrow>
          (case (spec_day D, spec_month M, spec_year Y) of
             (Some d, Some m, Some y) \<Rightarrow> Some (y, m, d)
           | _ \<Rightarrow> None)
      | _ \<Rightarrow> None)"

definition month_lengths :: "nat \<Rightarrow> nat list" where
  "month_lengths y =
     [31, if y mod 4 = 0 \<and> (y mod 100 \<noteq> 0 \<or> y mod 400 = 0) then 29 else 28,
      31, 30, 31, 30, 31, 31, 30, 31, 30, 31]"

definition spec_calendar_date :: "nat \<times> nat \<times> nat \<Rightarrow> bool" where
  "spec_calendar_date ymd =
     (case ymd of (y, m, d) \<Rightarrow> 1 \<le> m \<and> m \<le> 12 \<and> 1 \<le> d \<and> d \<le> month_lengths y ! (m - 1))"

text \<open>The dates of a \<^verbatim>\<open>Timestamp\<close>, from 1677-09-22 to 2262-04-11, compared as numbers.\<close>

definition spec_timestamp_date :: "nat \<times> nat \<times> nat \<Rightarrow> bool" where
  "spec_timestamp_date ymd =
     (case ymd of (y, m, d) \<Rightarrow>
        16770922 \<le> 10000 * y + 100 * m + d \<and> 10000 * y + 100 * m + d \<le> 22620411)"

definition zfill :: "nat \<Rightarrow> pystr \<Rightarrow> pystr" where
  "zfill n s = replicate (n - length s) 48 @ s"

definition spec_iso :: "nat \<times> nat \<times> nat \<Rightarrow> pystr" where
  "spec_iso ymd =
     (case ymd of (y, m, d) \<Rightarrow>
        zfill 4 (digits_of_nat y) @ [45] @ zfill 2 (digits_of_nat m) @ [45] @
        zfill 2 (digits_of_nat d))"

definition spec_on_date :: "cell \<Rightarrow> cell" where
  "spec_on_date v =
     (if isna v then CNaN
      else (case spec_dmy (py_str v) of
              None \<Rightarrow> CNaN
            | Some ymd \<Rightarrow>
                if spec_calendar_date ymd \<and> spec_timestamp_date ymd then CStr (spec_iso ymd)
                else CNaN))"

section \<open>The outside world\<close>

text \<open>
  What the program reads from outside itself: the parser of pandas (with the separator
  and the encoding it is called with), the bytes of a file, the decoder of a byte string,
  the file system and the outcome of \<^verbatim>\<open>psycopg2.connect\<close>.
\<close>

datatype csv_source = FromPath pystr | FromText pystr

record env =
  pd_read_csv :: "csv_source \<Rightarrow> pystr \<Rightarrow> pystr option \<Rightarrow> exc + dataframe"
  open_rb_read :: "pystr \<Rightarrow> exc + nat list"
  bytes_decode :: "nat list \<Rightarrow> pystr \<Rightarrow> exc + pystr"
  os_path_exists :: "pystr \<Rightarrow> bool"
  DATA_DIR :: pystr
  psycopg2_connect :: "exc option"

text \<open>
  The database and the log are state. Every call that goes to the server
  (\<^verbatim>\<open>cursor.execute\<close>, each page of \<^verbatim>\<open>execute_batch\<close>, \<^verbatim>\<open>conn.commit\<close>) takes its outcome
  from a script of outcomes, so that any of them may raise; when the script is used up
  the calls succeed. \<^verbatim>\<open>conn.cursor\<close> and \<^verbatim>\<open>conn.rollback\<close> are taken not to raise. Of the
  tables only \<^verbatim>\<open>logs.etl_logs\<close> is kept: the two statements of the run log act on it when
  their transaction commits, and every other statement is only recorded in the trace.
\<close>

datatype param = PNone | PInt int | PStr pystr | PTime nat

datatype event =
    Log nat "pystr list"
  | Connect "exc option"
  | Execute pystr "param list" "exc option"
  | ExecutePage pystr "elem list list" "exc option"
  | Commit "exc option"
  | Rollback
  | Close

record run_record =
  r_log_id :: nat
  r_table_name :: pystr
  r_start_time :: nat
  r_end_time :: "nat option"
  r_status :: pystr
  r_records_processed :: int
  r_error_message :: "pystr option"

datatype audit_op =
    AuditInsert run_record
  | AuditUpdate nat nat pystr int "pystr option"

record world =
  etl_logs :: "run_record list"
  pending :: "audit_op list"
  log_id_seq :: nat
  fetched :: "nat option"
  clock :: nat
  script :: "exc option list"
  trace :: "event list"

text \<open>
  \<open>Log n args\<close> is the call of the logger at line \<open>n\<close> of \<^verbatim>\<open>etl.py\<close>, with the values
  that its message interpolates.
\<close>

definition emit :: "event \<Rightarrow> world \<Rightarrow> world" where
  "emit ev w = w\<lparr>trace := trace w @ [ev]\<rparr>"

definition logger :: "nat \<Rightarrow> pystr list \<Rightarrow> world \<Rightarrow> world" where
  "logger line args w = emit (Log line args) w"

definition next_outcome :: "world \<Rightarrow> exc option \<times> world" where
  "next_outcome w = (case script w of [] \<Rightarrow> (None, w) | r # rs \<Rightarrow> (r, w\<lparr>script := rs\<rparr>))"

definition datetime_now :: "world \<Rightarrow> nat \<times> world" where
  "datetime_now w = (clock w, w\<lparr>clock := Suc (clock w)\<rparr>)"

subsection \<open>The statements of the run log\<close>

definition log_start_query :: pystr where
  "log_start_query =
     nl @ sp 4 @ u ''INSERT INTO logs.etl_logs '' @
     nl @ sp 4 @ u ''(table_name, start_time, status, records_processed) '' @
     nl @ sp 4 @ u ''VALUES (%s, %s, %s, %s)'' @
     nl @ sp 4 @ u ''RETURNING log_id;'' @ nl @ sp 4"

definition log_end_query :: pystr where
  "log_end_query =
     nl @ sp 4 @ u ''UPDATE logs.etl_logs '' @
     nl @ sp 4 @ u ''SET end_time = %s, status = %s, records_processed = %s, error_message = %s'' @
     nl @ sp 4 @ u ''WHERE log_id = %s;'' @ nl @ sp 4"

definition truncate_query :: pystr where
  "truncate_query = u ''TRUNCATE TABLE ds.ft_posting_f;''"

definition audit_insert_of :: "param list \<Rightarrow> nat \<Rightarrow> audit_op option" where
  "audit_insert_of ps i =
     (case ps of
        [PStr t, PTime ts, PStr st, PInt n] \<Rightarrow>
          Some (AuditInsert \<lparr>r_log_id = i, r_table_name = t, r_start_time = ts, r_end_time = None,
                  r_status = st, r_records_processed = n, r_error_message = None\<rparr>)
      | _ \<Rightarrow> None)"

definition audit_update_of :: "param list \<Rightarrow> audit_op option" where
  "audit_update_of ps =
     (case ps of
        [PTime te, PStr st, PInt n, PNone, PInt i] \<Rightarrow> Some (AuditUpdate (nat i) te st n None)
      | [PTime te, PStr st, PInt n, PStr m, PInt i] \<Rightarrow> Some (AuditUpdate (nat i) te st n (Some m))
      | _ \<Rightarrow> None)"

text \<open>The \<^verbatim>\<open>SET\<close> clause of the update, on the rows that its \<^verbatim>\<open>WHERE\<close> clause selects.\<close>

definition set_end :: "nat \<Rightarrow> nat \<Rightarrow> pystr \<Rightarrow> int \<Rightarrow> pystr option \<Rightarrow> run_record \<Rightarrow> run_record" where
  "set_end i te st n em r =
     (if r_log_id r = i
      then r\<lparr>r_end_time := Some te, r_status := st, r_records_processed := n, r_error_message := em\<rparr>
      else r)"

fun apply_audit :: "run_record list \<Rightarrow> audit_op \<Rightarrow> run_record list" where
  "apply_audit logs (AuditInsert r) = logs @ [r]"
| "apply_audit logs (AuditUpdate i te st n em) = map (set_end i te st n em) logs"

subsection \<open>The calls of psycopg2\<close>

definition cursor_execute :: "pystr \<Rightarrow> param list \<Rightarrow> world \<Rightarrow> exc option \<times> world" where
  "cursor_execute query params w =
     (case next_outcome w of
        (r, w1) \<Rightarrow>
          let w2 = emit (Execute query params r) w1 in
          (case r of
             Some e \<Rightarrow> (Some e, w2)
           | None \<Rightarrow>
               if query = log_start_query then
                 (case audit_insert_of params (log_id_seq w2) of
                    Some ins \<Rightarrow>
                      (None, w2\<lparr>pending := pending w2 @ [ins], fetched := Some (log_id_seq w2),
                                log_id_seq := Suc (log_id_seq w2)\<rparr>)
                  | None \<Rightarrow> (None, w2\<lparr>fetched := None\<rparr>))
               else if query = log_end_query then
                 (case audit_update_of params of
                    Some upd \<Rightarrow> (None, w2\<lparr>pending := pending w2 @ [upd], fetched := None\<rparr>)
                  | None \<Rightarrow> (None, w2\<lparr>fetched := None\<rparr>))
               else (None, w2\<lparr>fetched := None\<rparr>)))"

text \<open>\<^verbatim>\<open>cursor.fetchone()[0]\<close>\<close>

definition cursor_fetchone :: "world \<Rightarrow> exc + nat" where
  "cursor_fetchone w =
     (case fetched w of
        Some i \<Rightarrow> Inr i
      | None \<Rightarrow> Inl (Error (u ''no results to fetch'')))"

definition conn_commit :: "world \<Rightarrow> exc option \<times> world" where
  "conn_commit w =
     (case next_outcome w of
        (r, w1) \<Rightarrow>
          let w2 = emit (Commit r) w1 in
          (case r of
             Some e \<Rightarrow> (Some e, w2)
           | None \<Rightarrow> (None, w2\<lparr>etl_logs := foldl apply_audit (etl_logs w2) (pending w2),
                                 pending := []\<rparr>)))"

definition conn_rollback :: "world \<Rightarrow> world" where
  "conn_rollback w = emit Rollback (w\<lparr>pending := []\<rparr>)"

text \<open>
  \<^verbatim>\<open>extras.execute_batch(cursor, sql, argslist, page_size)\<close> sends the statements page by
  page, one call to the server for each page, and stops at the first that raises.
\<close>

fun paginate :: "nat \<Rightarrow> 'a list \<Rightarrow> 'a list list" where
  "paginate n xs = (if n = 0 \<or> xs = [] then [] else take n xs # paginate n (drop n xs))"

declare paginate.simps [simp del]

fun execute_pages :: "pystr \<Rightarrow> elem list list list \<Rightarrow> world \<Rightarrow> exc option \<times> world" where
  "execute_pages query [] w = (None, w)"
| "execute_pages query (page # pages) w =
     (case next_outcome w of
        (r, w1) \<Rightarrow>
          let w2 = emit (ExecutePage query page r) w1 in
          (case r of
             Some e \<Rightarrow> (Some e, w2)
           | None \<Rightarrow> execute_pages query pages w2))"

definition execute_batch :: "pystr \<Rightarrow> elem list list \<Rightarrow> nat \<Rightarrow> world \<Rightarrow> exc option \<times> world" where
  "execute_batch query argslist page_size w = execute_pages query (paginate page_size argslist) w"

section \<open>\<^verbatim>\<open>execute_sql\<close>, \<^verbatim>\<open>log_etl_start\<close>, \<^verbatim>\<open>log_etl_end\<close>\<close>

definition execute_sql :: "pystr \<Rightarrow> param list \<Rightarrow> world \<Rightarrow> (exc + bool) \<times> world" where
  "execute_sql query params w =
     (case cursor_execute query params w of
        (Some e, w1) \<Rightarrow> (Inl e, logger 85 [str_exc e, query] (conn_rollback w1))
      | (None, w1) \<Rightarrow>
          (case conn_commit w1 of
             (Some e, w2) \<Rightarrow> (Inl e, logger 85 [str_exc e, query] (conn_rollback w2))
           | (None, w2) \<Rightarrow> (Inr True, w2)))"

definition log_etl_start :: "pystr \<Rightarrow> world \<Rightarrow> (exc + nat) \<times> world" where
  "log_etl_start table_name w =
     (case datetime_now w of
        (t, w0) \<Rightarrow>
          (case cursor_execute log_start_query [PStr table_name, PTime t, PStr (u ''started''), PInt 0] w0 of
             (Some e, w1) \<Rightarrow> (Inl e, logger 104 [str_exc e] (conn_rollback w1))
           | (None, w1) \<Rightarrow>
               (case cursor_fetchone w1 of
                  Inl e \<Rightarrow> (Inl e, logger 104 [str_exc e] (conn_rollback w1))
                | Inr log_id \<Rightarrow>
                    (case conn_commit w1 of
                       (Some e, w2) \<Rightarrow> (Inl e, logger 104 [str_exc e] (conn_rollback w2))
                     | (None, w2) \<Rightarrow> (Inr log_id, w2)))))"

definition log_etl_end ::
  "nat \<Rightarrow> pystr \<Rightarrow> pystr \<Rightarrow> nat \<Rightarrow> pystr option \<Rightarrow> world \<Rightarrow> (exc + unit) \<times> world" where
  "log_etl_end log_id table_name status records_processed error_msg w =
     (case datetime_now w of
        (t, w0) \<Rightarrow>
          (case execute_sql log_end_query
                  [PTime t, PStr status, PInt (int records_processed),
                   (case error_msg of None \<Rightarrow> PNone | Some m \<Rightarrow> PStr m), PInt (int log_id)] w0 of
             (Inl e, w1) \<Rightarrow> (Inl e, w1)
           | (Inr ok, w1) \<Rightarrow> (Inr (), w1)))"

section \<open>\<^verbatim>\<open>read_csv_with_encoding_tries\<close>\<close>

definition encodings :: "pystr list" where
  "encodings = [u ''utf-8-sig'', u ''cp1251'', u ''latin1'', u ''utf-16-le'']"

text \<open>The body of the \<^verbatim>\<open>try\<close> for one encoding.\<close>

definition read_attempt :: "env \<Rightarrow> pystr \<Rightarrow> pystr \<Rightarrow> exc + dataframe" where
  "read_attempt ev file_path encoding =
     (if encoding = u ''utf-16-le'' then
        (case open_rb_read ev file_path of
           Inl e \<Rightarrow> Inl e
         | Inr content \<Rightarrow>
             (case bytes_decode ev (if take 2 content = [255, 254] then drop 2 content else content)
                     (u ''utf-16-le'') of
                Inl e \<Rightarrow> Inl e
              | Inr decoded \<Rightarrow> pd_read_csv ev (FromText decoded) (u '';'') None))
      else pd_read_csv ev (FromPath file_path) (u '';'') (Some encoding))"

fun try_encodings :: "env \<Rightarrow> pystr \<Rightarrow> pystr list \<Rightarrow> world \<Rightarrow> dataframe option \<times> world" where
  "try_encodings ev file_path [] w = (None, w)"
| "try_encodings ev file_path (encoding # rest) w =
     (case read_attempt ev file_path encoding of
        Inr df \<Rightarrow> (Some df, logger 132 [file_path, encoding] w)
      | Inl e \<Rightarrow> try_encodings ev file_path rest (logger 135 [encoding, str_exc e] w))"

text \<open>The message of line 138, in code points.\<close>

definition unreadable_message :: "pystr \<Rightarrow> pystr list \<Rightarrow> pystr" where
  "unreadable_message file_path encs =
     [1053, 1077, 32, 1091, 1076, 1072, 1083, 1086, 1089, 1100, 32, 1087, 1088, 1086, 1095, 1080,
      1090, 1072, 1090, 1100, 32, 1092, 1072, 1081, 1083, 32] @ file_path @
     [32, 1085, 1080, 32, 1089, 32, 1086, 1076, 1085, 1086, 1081, 32, 1080, 1079, 32, 1082, 1086,
      1076, 1080, 1088, 1086, 1074, 1086, 1082, 58, 32] @ py_repr_list encs"

definition read_csv_with_encoding_tries :: "env \<Rightarrow> pystr \<Rightarrow> world \<Rightarrow> (exc + dataframe) \<times> world" where
  "read_csv_with_encoding_tries ev file_path w =
     (case try_encodings ev file_path encodings w of
        (Some df, w1) \<Rightarrow> (Inr df, w1)
      | (None, w1) \<Rightarrow> (Inl (ValueError (unreadable_message file_path encodings)), w1))"

section \<open>\<^verbatim>\<open>load_data_from_csv\<close>\<close>

text \<open>
  The handler of the inner \<^verbatim>\<open>try\<close> (lines 217 to 226). For the currency table it prints a
  sample of two columns, and \<^verbatim>\<open>df[[...]]\<close> raises \<^verbatim>\<open>KeyError\<close> when one of them is absent;
  that exception then takes the place of the first.
\<close>

definition insert_failed :: "pystr \<Rightarrow> dataframe \<Rightarrow> exc \<Rightarrow> world \<Rightarrow> exc \<times> world" where
  "insert_failed table_name df e w =
     (let w1 = logger 220 [str_exc e] (conn_rollback w) in
      if table_name = u ''ds.md_currency_d'' then
        (let w2 = logger 223 [] w1;
             missing = filter (\<lambda>c. c \<notin> set (columns df)) [u ''currency_code'', u ''code_iso_char'']
         in if missing = [] then (e, logger 225 [] w2)
            else if length missing = 2 then
              (KeyError ([34] @ u ''None of [Index('' @ py_repr_list missing @
                 u '', dtype='object')] are in the [columns]'' @ [34]), w2)
            else (KeyError ([34] @ py_repr_list missing @ u '' not in index'' @ [34]), w2))
      else (e, w1))"

text \<open>
  Lines 202 to 226: the result of the block and the value of \<^verbatim>\<open>records_processed\<close> when it
  is left.
\<close>

definition batch_insert ::
  "pystr \<Rightarrow> dataframe \<Rightarrow> pystr \<Rightarrow> elem list list \<Rightarrow> world \<Rightarrow> ((exc + unit) \<times> nat) \<times> world" where
  "batch_insert table_name df query data w =
     (case cursor_execute (u ''BEGIN;'') [] w of
        (Some e, w1) \<Rightarrow> ((Inl e, 0), w1)
      | (None, w1) \<Rightarrow>
          (case execute_batch query data 1000 w1 of
             (Some e, w2) \<Rightarrow>
               (case insert_failed table_name df e w2 of (e', w3) \<Rightarrow> ((Inl e', 0), w3))
           | (None, w2) \<Rightarrow>
               (let records_processed = length data in
                case conn_commit w2 of
                  (Some e, w3) \<Rightarrow>
                    (case insert_failed table_name df e w3 of
                       (e', w4) \<Rightarrow> ((Inl e', records_processed), w4))
                | (None, w3) \<Rightarrow>
                    ((Inr (), records_processed),
                     logger 215 [str_int (int records_processed), table_name] w3))))"

text \<open>Lines 169 to 173.\<close>

definition truncate_step :: "pystr \<Rightarrow> world \<Rightarrow> (exc + unit) \<times> world" where
  "truncate_step table_name w =
     (if table_name = u ''ds.ft_posting_f'' then
        (case execute_sql truncate_query [] w of
           (Inl e, w1) \<Rightarrow> (Inl e, w1)
         | (Inr ok, w1) \<Rightarrow> (Inr (), logger 173 [table_name] w1))
      else (Inr (), w))"

text \<open>The body of the outer \<^verbatim>\<open>try\<close> (lines 149 to 226).\<close>

definition load_try :: "env \<Rightarrow> pystr \<Rightarrow> pystr \<Rightarrow> world \<Rightarrow> ((exc + unit) \<times> nat) \<times> world" where
  "load_try ev table_name file_path w =
     (case read_csv_with_encoding_tries ev file_path w of
        (Inl e, w1) \<Rightarrow> ((Inl e, 0), w1)
      | (Inr df0, w1) \<Rightarrow>
          (case normalize table_name df0 of
             Inl e \<Rightarrow> ((Inl e, 0), w1)
           | Inr df \<Rightarrow>
               (case truncate_step table_name w1 of
                  (Inl e, w2) \<Rightarrow> ((Inl e, 0), w2)
                | (Inr ok, w2) \<Rightarrow>
                    batch_insert table_name df
                      (insert_query PRIMARY_KEYS table_name (columns df)) (data_tuples df) w2)))"

text \<open>
  The whole function: the \<^verbatim>\<open>except\<close> clause sets \<^verbatim>\<open>error_msg\<close> and raises again, the
  \<^verbatim>\<open>finally\<close> clause writes the end of the run, and an exception of the \<^verbatim>\<open>finally\<close> clause
  takes the place of the one in flight.
\<close>

definition load_data_from_csv :: "env \<Rightarrow> pystr \<Rightarrow> pystr \<Rightarrow> world \<Rightarrow> (exc + nat) \<times> world" where
  "load_data_from_csv ev table_name file_path w =
     (case log_etl_start table_name (logger 142 [table_name, file_path] w) of
        (Inl e, w1) \<Rightarrow> (Inl e, w1)
      | (Inr log_id, w1) \<Rightarrow>
          (case load_try ev table_name file_path w1 of
             ((r, records_processed), w2) \<Rightarrow>
               (let error_msg = (case r of Inl e \<Rightarrow> Some (str_exc e) | Inr ok \<Rightarrow> None);
                    w3 = (case r of Inl e \<Rightarrow> logger 230 [table_name, str_exc e] w2 | Inr ok \<Rightarrow> w2);
                    status = (if error_msg = None then u ''completed'' else u ''failed'')
                in case log_etl_end log_id table_name status records_processed error_msg w3 of
                     (Inl e', w4) \<Rightarrow> (Inl e', w4)
                   | (Inr ok, w4) \<Rightarrow>
                       (case r of
                          Inl e \<Rightarrow> (Inl e, w4)
                        | Inr ok \<Rightarrow> (Inr records_processed, w4)))))"

section \<open>\<^verbatim>\<open>check_files_exist\<close> and \<^verbatim>\<open>main\<close>\<close>

definition check_files_exist :: "env \<Rightarrow> (pystr \<times> pystr) list \<Rightarrow> world \<Rightarrow> bool \<times> world" where
  "check_files_exist ev mapping w =
     (let missing_files = filter (\<lambda>file_path. \<not> os_path_exists ev file_path) (map snd mapping);
          w1 = foldl (\<lambda>w' file_path. logger 245 [file_path] w') w missing_files
      in if missing_files \<noteq> [] then (False, logger 248 [join (u '', '') missing_files] w1)
         else (True, w1))"

text \<open>The loop of lines 270 to 275 over the items of the mapping.\<close>

fun load_tables :: "env \<Rightarrow> (pystr \<times> pystr) list \<Rightarrow> world \<Rightarrow> world" where
  "load_tables ev [] w = w"
| "load_tables ev ((table_name, file_path) # rest) w =
     (case load_data_from_csv ev table_name file_path w of
        (Inl e, w1) \<Rightarrow> load_tables ev rest (logger 274 [table_name, str_exc e] w1)
      | (Inr n, w1) \<Rightarrow> load_tables ev rest w1)"

text \<open>
  \<^verbatim>\<open>main\<close>, with the mapping it iterates as an argument: the program runs it on
  \<open>TABLE_FILE_MAPPING (DATA_DIR ev)\<close>. The pause of line 267 has no effect on the state.
\<close>

definition main :: "env \<Rightarrow> (pystr \<times> pystr) list \<Rightarrow> world \<Rightarrow> world" where
  "main ev mapping w =
     (case check_files_exist ev mapping (logger 256 [] w) of
        (False, w1) \<Rightarrow> w1
      | (True, w1) \<Rightarrow>
          (case psycopg2_connect ev of
             Some e \<Rightarrow>
               logger 280 [str_exc e] (logger 73 [str_exc e] (emit (Connect (Some e)) w1))
           | None \<Rightarrow>
               (let w2 = logger 266 [] (logger 70 [] (emit (Connect None) w1));
                    w3 = logger 277 [] (load_tables ev mapping w2)
                in logger 284 [] (emit Close w3))))"

section \<open>Observing a run\<close>

text \<open>
  What the theorems read off a trace: the calls that write the end of a run, the
  \<^verbatim>\<open>TRUNCATE\<close> statements, the pages of a batch, the calls to the database, and the
  loads that were begun (the message of line 142 names the table and the file).
\<close>

fun is_end_call :: "event \<Rightarrow> bool" where
  "is_end_call (Execute query params r) = (query = log_end_query)"
| "is_end_call ev = False"

fun is_truncate :: "event \<Rightarrow> bool" where
  "is_truncate (Execute query params r) = (query = truncate_query)"
| "is_truncate ev = False"

fun is_page :: "event \<Rightarrow> bool" where
  "is_page (ExecutePage query page r) = True"
| "is_page ev = False"

fun is_db :: "event \<Rightarrow> bool" where
  "is_db (Log line args) = False"
| "is_db ev = True"

fun load_begin :: "event \<Rightarrow> (pystr \<times> pystr) list" where
  "load_begin (Log line [table_name, file_path]) = (if line = 142 then [(table_name, file_path)] else [])"
| "load_begin ev = []"

definition attempts :: "event list \<Rightarrow> (pystr \<times> pystr) list" where
  "attempts tr = concat (map load_begin tr)"

definition end_calls :: "event list \<Rightarrow> event list" where
  "end_calls tr = filter is_end_call tr"

text \<open>
  The rows of a page that was executed, whether a page raised, and the rows of a page
  whatever its outcome.
\<close>

fun page_rows :: "event \<Rightarrow> elem list list" where
  "page_rows (ExecutePage query page None) = page"
| "page_rows ev = []"

fun page_failed :: "event \<Rightarrow> bool" where
  "page_failed (ExecutePage query page (Some e)) = True"
| "page_failed ev = False"

fun sent_rows :: "event \<Rightarrow> elem list list" where
  "sent_rows (ExecutePage query page r) = page"
| "sent_rows ev = []"

definition page_calls :: "event list \<Rightarrow> event list" where
  "page_calls tr = filter is_page tr"

definition db_calls :: "event list \<Rightarrow> event list" where
  "db_calls tr = filter is_db tr"

definition truncates :: "event list \<Rightarrow> event list" where
  "truncates tr = filter is_truncate tr"

text \<open>The outcome that the next call to the server will get.\<close>

definition peek :: "exc option list \<Rightarrow> exc option" where
  "peek outcomes = (case outcomes of [] \<Rightarrow> None | r # rs \<Rightarrow> r)"

text \<open>Nothing is pending, and the run log is as it was.\<close>

definition settled :: "world \<Rightarrow> world \<Rightarrow> bool" where
  "settled w w' = (pending w' = [] \<and> etl_logs w' = etl_logs w)"

section \<open>Example inputs\<close>

text \<open>
  A parser that reads one file, \<^verbatim>\<open>good.csv\<close>, and only as \<^verbatim>\<open>cp1251\<close>; and an empty
  database whose calls take their outcomes from the given script.
\<close>

definition example_env :: env where
  "example_env =
     \<lparr>pd_read_csv = (\<lambda>src sep enc.
          if src = FromPath (u ''good.csv'') \<and> sep = u '';'' \<and> enc = Some (u ''cp1251'')
          then Inr [(u ''ACCOUNT_RK '', Int64, [CInt 1, CInt 2]),
                (u ''amount'', Float64, [CNaN, CFloat (u ''1.5'')])]
          else Inl (Error (u ''cannot parse''))),
      open_rb_read = (\<lambda>file_path. Inl (Error (u ''cannot open''))),
      bytes_decode = (\<lambda>content enc. Inl (Error (u ''cannot decode''))),
      os_path_exists = (\<lambda>file_path. True),
      DATA_DIR = u ''data'',
      psycopg2_connect = None\<rparr>"

definition example_world :: "exc option list \<Rightarrow> world" where
  "example_world outcomes =
     \<lparr>etl_logs = [], pending = [], log_id_seq = 1, fetched = None, clock = 0,
      script = outcomes, trace = []\<rparr>"

section \<open>Properties of the insert statement\<close>

lemma insert_query_keyed:
  assumes "dict_get primary_keys table_name = Some pk" and "pk \<noteq> []"
  shows "insert_query primary_keys table_name cols =
         plain_insert table_name cols @ conflict_clause pk (filter (\<lambda>c. c \<notin> set pk) cols)"
  using assms
  by (simp add: insert_query_def plain_insert_def conflict_clause_def Let_def map_replicate_const)




text \<open>
  Claim C9. When every column of the table is in its declared (non-empty) primary-key
  list, the statement still carries the clause \<^verbatim>\<open>ON CONFLICT (...) DO UPDATE SET\<close>, with
  nothing after \<^verbatim>\<open>SET\<close> but the closing line break and indentation: the assignment list
  is empty, and the statement is not the plain insert.
\<close>

theorem insert_query_all_columns_in_key:
  assumes "dict_get primary_keys table_name = Some pk" and "pk \<noteq> []"
    and "set cols \<subseteq> set pk"
  shows "insert_query primary_keys table_name cols =
           plain_insert table_name cols @
           nl @ sp 12 @ u ''ON CONFLICT ('' @ join (u '', '') (map quoted pk) @ u '') '' @
           nl @ sp 12 @ u ''DO UPDATE SET '' @ nl @ sp 12 \<and>
         insert_query primary_keys table_name cols \<noteq> plain_insert table_name cols"
proof -
  have "filter (\<lambda>c. c \<notin> set pk) cols = []"
    using assms(3) by (auto simp add: filter_empty_conv)
  then have "insert_query primary_keys table_name cols =
      plain_insert table_name cols @ conflict_clause pk []"
    using assms(1,2) by (simp add: insert_query_keyed)
  then show ?thesis
    by (simp add: conflict_clause_def nl_def)
qed

theorem insert_query_all_columns_in_key_witness:
  "insert_query PRIMARY_KEYS (u ''ds.ft_balance_f'') [u ''account_rk'', u ''on_date''] =
     plain_insert (u ''ds.ft_balance_f'') [u ''account_rk'', u ''on_date''] @
     nl @ sp 12 @ u ''ON CONFLICT ('' @
     join (u '', '') (map quoted [u ''on_date'', u ''account_rk'']) @ u '') '' @
     nl @ sp 12 @ u ''DO UPDATE SET '' @ nl @ sp 12 \<and>
   insert_query PRIMARY_KEYS (u ''ds.ft_balance_f'') [u ''account_rk'', u ''on_date''] \<noteq>
     plain_insert (u ''ds.ft_balance_f'') [u ''account_rk'', u ''on_date'']"
proof -
  have k: "dict_get PRIMARY_KEYS (u ''ds.ft_balance_f'') = Some [u ''on_date'', u ''account_rk'']"
    by (simp add: dict_get_def PRIMARY_KEYS_def u_def)
  have p: "[u ''on_date'', u ''account_rk''] \<noteq> []"
    by simp
  have s: "set [u ''account_rk'', u ''on_date''] \<subseteq> set [u ''on_date'', u ''account_rk'']"
    by simp
  show ?thesis
    by (rule insert_query_all_columns_in_key [OF k p s])
qed

section \<open>Properties of normalization\<close>

lemmas normalize_defs =
  normalize_def normalize_columns_def on_date_step_def column_values_def to_datetime_def
  to_datetime_cell_def strptime_dmy_def day_field_def month_field_def year_field_def
  valid_date_def days_in_month_def is_leap_def digit_value_def nd_zeros_def strftime_ymd_def
  four_digits_def two_digits_def str_lower_def str_strip_def lower_char_def is_space_def
  currency_step_def columns_def count_col_def map_column_def astype_str_replace_def
  first_three_def u_def str_int_def digits_of_nat.simps

lemmas spec_date_defs =
  spec_on_date_def spec_dmy_def spec_day_def spec_month_def spec_year_def decimal_def
  spec_calendar_date_def spec_timestamp_date_def month_lengths_def spec_iso_def zfill_def
  is_ascii_digit_def digit_value_def nd_zeros_def str_int_def digits_of_nat.simps u_def

lemma days_in_month_le: "days_in_month y m \<le> 31"
  by (simp add: days_in_month_def)

lemma is_iso_dateI:
  assumes "is_ascii_digit y1" "is_ascii_digit y2" "is_ascii_digit y3" "is_ascii_digit y4"
    and "is_ascii_digit m1" "is_ascii_digit m2" "is_ascii_digit d1" "is_ascii_digit d2"
    and "1 \<le> 10 * (m1 - 48) + (m2 - 48)" "10 * (m1 - 48) + (m2 - 48) \<le> 12"
    and "1 \<le> 10 * (d1 - 48) + (d2 - 48)" "10 * (d1 - 48) + (d2 - 48) \<le> 31"
  shows "is_iso_date [y1, y2, y3, y4, 45, m1, m2, 45, d1, d2]"
  using assms by (simp add: is_iso_date_def)

lemma digit_mod: "is_ascii_digit (48 + k mod 10)"
  by (simp add: is_ascii_digit_def)

lemma two_digits_value:
  assumes "(n::nat) < 100"
  shows "10 * (48 + n div 10 mod 10 - 48) + (48 + n mod 10 - 48) = n"
  using assms by simp

lemma strftime_valid_is_iso:
  assumes "valid_date (y, m, d)"
  shows "\<exists>s. strftime_ymd (Some (y, m, d)) = CStr s \<and> is_iso_date s \<and> 46 \<notin> set s"
proof -
  have d: "d \<le> 31" using assms days_in_month_le [of y m] by (simp add: valid_date_def)
  have m: "1 \<le> m" "m \<le> 12" and d1: "1 \<le> d" using assms by (simp_all add: valid_date_def)
  have m100: "m < 100" and d100: "d < 100" using m d by simp_all
  let ?s = "[48 + y div 1000 mod 10, 48 + y div 100 mod 10, 48 + y div 10 mod 10, 48 + y mod 10,
             45, 48 + m div 10 mod 10, 48 + m mod 10, 45, 48 + d div 10 mod 10, 48 + d mod 10]"
  have s: "strftime_ymd (Some (y, m, d)) = CStr ?s"
    by (simp add: strftime_ymd_def four_digits_def two_digits_def)
  have iso: "is_iso_date ?s"
  proof (rule is_iso_dateI)
    show "1 \<le> 10 * (48 + m div 10 mod 10 - 48) + (48 + m mod 10 - 48)"
      using m by (simp only: two_digits_value [OF m100])
    show "10 * (48 + m div 10 mod 10 - 48) + (48 + m mod 10 - 48) \<le> 12"
      using m by (simp only: two_digits_value [OF m100])
    show "1 \<le> 10 * (48 + d div 10 mod 10 - 48) + (48 + d mod 10 - 48)"
      using d1 by (simp only: two_digits_value [OF d100])
    show "10 * (48 + d div 10 mod 10 - 48) + (48 + d mod 10 - 48) \<le> 31"
      using d by (simp only: two_digits_value [OF d100])
  qed (rule digit_mod)+
  have nodot: "46 \<notin> set ?s"
    by simp
  show ?thesis
    using s iso nodot by blast
qed

lemma day_field_dot: "day_field s = Some (d, r) \<Longrightarrow> 46 \<in> set s"
  by (auto simp add: day_field_def split: list.splits if_splits)

lemma strptime_dmy_dot: "strptime_dmy s = Some t \<Longrightarrow> 46 \<in> set s"
  by (auto simp add: strptime_dmy_def dest: day_field_dot split: option.splits prod.splits)

lemma strptime_dmy_valid: "strptime_dmy s = Some t \<Longrightarrow> valid_date t"
  by (auto simp add: strptime_dmy_def split: option.splits prod.splits if_splits)

lemma to_datetime_cell_some_valid:
  "to_datetime_cell c = Some t \<Longrightarrow> valid_date t"
  by (auto simp add: to_datetime_cell_def dest: strptime_dmy_valid split: if_splits)

lemma column_values_assign:
  "column_values col df = [vs] \<Longrightarrow> column_values col (assign_column col new df) = [new]"
  by (induction df) (auto simp add: column_values_def split: if_splits)

lemma on_date_cell:
  "(strftime_ymd (to_datetime_cell v0) = CNaN \<or>
    (\<exists>s. strftime_ymd (to_datetime_cell v0) = CStr s \<and> is_iso_date s)) \<and>
   (\<forall>s. v0 = CStr s \<longrightarrow> strftime_ymd (to_datetime_cell v0) \<noteq> v0)"
proof (cases "to_datetime_cell v0")
  case None
  then show ?thesis by (auto simp add: strftime_ymd_def)
next
  case (Some ymd)
  obtain y m d where ymd: "ymd = (y, m, d)" by (cases ymd) auto
  have "valid_date (y, m, d)"
    using Some ymd by (simp add: to_datetime_cell_some_valid)
  then obtain s where s: "strftime_ymd (Some (y, m, d)) = CStr s" "is_iso_date s" "46 \<notin> set s"
    using strftime_valid_is_iso by blast
  have "s \<noteq> s0" if "v0 = CStr s0" for s0
  proof -
    have "strptime_dmy s0 = Some ymd"
      using Some that by (simp add: to_datetime_cell_def)
    then have "46 \<in> set s0" by (rule strptime_dmy_dot)
    then show ?thesis using s(3) by auto
  qed
  then show ?thesis using s Some ymd by auto
qed

lemma on_date_step_Inr:
  assumes "on_date_step df = Inr df'"
  shows "\<exists>vs0. column_values (u ''on_date'') df = [vs0] \<and>
           df' = assign_column (u ''on_date'') (map strftime_ymd (to_datetime vs0)) df"
  using assms by (auto simp add: on_date_step_def split: list.splits)

lemma balance_not_currency: "u ''ds.ft_balance_f'' \<noteq> u ''ds.md_currency_d''"
  by (simp add: u_def)

lemma normalize_balance:
  "normalize (u ''ds.ft_balance_f'') df0 = on_date_step (normalize_columns df0)"
  by (simp add: normalize_def balance_not_currency split: sum.splits)

subsection \<open>The matcher of the dates and the words of the specification\<close>

lemma find_nd: "find P xs = Some z \<Longrightarrow> P z"
  by (induction xs) (auto split: if_splits)

lemma digit_value_lt: "digit_value c = Some v \<Longrightarrow> v < 10"
  by (auto simp add: digit_value_def dest!: find_nd)

lemma digit_value_ascii: "is_ascii_digit c \<Longrightarrow> digit_value c = Some (c - 48)"
  by (simp add: digit_value_def nd_zeros_def is_ascii_digit_def)

lemma digit_value_dot [simp]: "digit_value 46 = None"
  by (simp add: digit_value_def nd_zeros_def)

lemma digit_value_blank [simp]: "digit_value 32 = None"
  by (simp add: digit_value_def nd_zeros_def)

lemma digit_value_ascii_iff:
  "48 \<le> c \<Longrightarrow> c \<le> 57 \<Longrightarrow> digit_value c = Some (c - 48)"
  by (simp add: digit_value_def nd_zeros_def)

lemma decimal_one: "decimal [a] = digit_value a"
  by (cases "digit_value a") (simp_all add: decimal_def)

lemma decimal_two:
  "decimal [a, b] =
     (case (digit_value a, digit_value b) of
        (Some x, Some y) \<Rightarrow> Some (10 * x + y)
      | _ \<Rightarrow> None)"
  by (cases "digit_value a"; cases "digit_value b") (simp_all add: decimal_def)

lemma decimal_four:
  "decimal [a, b, c, d] =
     (case (digit_value a, digit_value b, digit_value c, digit_value d) of
        (Some va, Some vb, Some vc, Some vd) \<Rightarrow> Some (1000 * va + 100 * vb + 10 * vc + vd)
      | _ \<Rightarrow> None)"
  by (cases "digit_value a"; cases "digit_value b"; cases "digit_value c"; cases "digit_value d")
     (simp_all add: decimal_def)

lemma year_eq: "year_field Y = spec_year Y"
proof (cases Y)
  case Nil then show ?thesis by (simp add: year_field_def spec_year_def)
next
  case (Cons a Y1)
  show ?thesis
  proof (cases Y1)
    case Nil then show ?thesis using Cons by (simp add: year_field_def spec_year_def)
  next
    case (Cons b Y2)
    note c2 = this
    show ?thesis
    proof (cases Y2)
      case Nil then show ?thesis using c2 \<open>Y = a # Y1\<close> by (simp add: year_field_def spec_year_def)
    next
      case (Cons c Y3)
      note c3 = this
      show ?thesis
      proof (cases Y3)
        case Nil then show ?thesis using c3 c2 \<open>Y = a # Y1\<close> by (simp add: year_field_def spec_year_def)
      next
        case (Cons d Y4)
        show ?thesis
        proof (cases Y4)
          case Nil
          then have "Y = [a, b, c, d]" using Cons c3 c2 \<open>Y = a # Y1\<close> by simp
          then show ?thesis by (simp add: year_field_def spec_year_def decimal_four)
        next
          case (Cons e Y5)
          then show ?thesis using \<open>Y3 = d # Y4\<close> c3 c2 \<open>Y = a # Y1\<close>
            by (simp add: year_field_def spec_year_def)
        qed
      qed
    qed
  qed
qed

lemma day_eq_one:
  "day_field (a # 46 # r) = map_option (\<lambda>d. (d, r)) (spec_day [a])"
proof (cases "49 \<le> a \<and> a \<le> 57")
  case True
  then have "digit_value a = Some (a - 48)" by (simp add: digit_value_ascii_iff)
  then show ?thesis using True
    by (auto simp add: day_field_def spec_day_def decimal_one is_ascii_digit_def)
next
  case False
  have "spec_day [a] = None"
  proof (cases "digit_value a")
    case None then show ?thesis by (simp add: spec_day_def decimal_one)
  next
    case (Some v)
    show ?thesis
    proof (cases "is_ascii_digit a")
      case True
      then have "v = a - 48" using Some by (simp add: digit_value_ascii)
      then show ?thesis using Some True False
        by (auto simp add: spec_day_def decimal_one is_ascii_digit_def)
    next
      case f: False
      then show ?thesis using Some
        by (auto simp add: spec_day_def decimal_one is_ascii_digit_def)
    qed
  qed
  then show ?thesis using False by (simp add: day_field_def)
qed

lemma day_eq_two:
  assumes "a \<noteq> 46" "b \<noteq> 46"
  shows "day_field (a # b # 46 # r) = map_option (\<lambda>d. (d, r)) (spec_day [a, b])"
proof -
  consider (blank) "a = 32" | (zero) "a = 48" | (tens) "a = 49 \<or> a = 50" | (three) "a = 51"
    | (big) "52 \<le> a \<and> a \<le> 57" | (other) "a \<noteq> 32 \<and> \<not> is_ascii_digit a"
    unfolding is_ascii_digit_def by arith
  then show ?thesis
  proof cases
    case blank
    show ?thesis
    proof (cases "is_ascii_digit b")
      case True
      then show ?thesis using blank assms
        by (auto simp add: day_field_def spec_day_def decimal_one digit_value_ascii is_ascii_digit_def)
    next
      case False
      then show ?thesis using blank assms
        by (auto simp add: day_field_def spec_day_def decimal_one is_ascii_digit_def split: option.splits)
    qed
  next
    case zero
    show ?thesis
    proof (cases "is_ascii_digit b")
      case True
      then show ?thesis using zero assms
        by (auto simp add: day_field_def spec_day_def decimal_two digit_value_ascii is_ascii_digit_def)
    next
      case False
      then show ?thesis using zero assms
        by (auto simp add: day_field_def spec_day_def decimal_two is_ascii_digit_def split: option.splits)
    qed
  next
    case tens
    then have da: "digit_value a = Some (a - 48)" by (auto simp add: digit_value_ascii_iff)
    show ?thesis
    proof (cases "digit_value b")
      case None
      then show ?thesis using tens assms da
        by (auto simp add: day_field_def spec_day_def decimal_two)
    next
      case (Some v)
      then have "v < 10" by (rule digit_value_lt)
      then show ?thesis using tens assms da Some
        by (auto simp add: day_field_def spec_day_def decimal_two is_ascii_digit_def)
    qed
  next
    case three
    then have da: "digit_value a = Some 3" by (simp add: digit_value_ascii_iff)
    show ?thesis
    proof (cases "is_ascii_digit b")
      case True
      then show ?thesis using three assms da
        by (auto simp add: day_field_def spec_day_def decimal_two digit_value_ascii is_ascii_digit_def)
    next
      case False
      then show ?thesis using three assms da
        by (auto simp add: day_field_def spec_day_def decimal_two is_ascii_digit_def split: option.splits)
    qed
  next
    case big
    then have da: "digit_value a = Some (a - 48)" by (simp add: digit_value_ascii_iff)
    show ?thesis using big assms da
      by (auto simp add: day_field_def spec_day_def decimal_two is_ascii_digit_def split: option.splits)
  next
    case other
    then have "spec_day [a, b] = None"
      by (cases "decimal [a, b]") (simp_all add: spec_day_def)
    moreover have "a \<noteq> 51" "a \<noteq> 49" "a \<noteq> 50" "a \<noteq> 48" "a \<noteq> 32"
      using other by (auto simp add: is_ascii_digit_def)
    ultimately show ?thesis
      using assms by (simp add: day_field_def)
  qed
qed

lemma spec_day_long: "2 < length D \<Longrightarrow> spec_day D = None"
  by (simp add: spec_day_def split: option.splits)

lemma day_eq:
  assumes "46 \<notin> set D"
  shows "day_field (D @ 46 # r) = map_option (\<lambda>d. (d, r)) (spec_day D)"
proof -
  consider (e) "D = []" | (one) a where "D = [a]" | (two) a b where "D = [a, b]"
    | (more) a b c D' where "D = a # b # c # D'"
    by (cases D rule: list.exhaust; simp) (metis list.exhaust)
  then show ?thesis
  proof cases
    case e
    then show ?thesis
      by (auto simp add: day_field_def spec_day_def decimal_def split: list.splits)
  next
    case one
    then show ?thesis by (simp add: day_eq_one)
  next
    case two
    then show ?thesis using assms by (simp add: day_eq_two)
  next
    case more
    then have "spec_day D = None" by (simp add: spec_day_long)
    then show ?thesis using more assms by (simp add: day_field_def)
  qed
qed

lemma month_eq_one:
  "month_field (a # 46 # r) = map_option (\<lambda>m. (m, r)) (spec_month [a])"
proof (cases "is_ascii_digit a")
  case True
  then show ?thesis
    by (auto simp add: month_field_def spec_month_def decimal_one digit_value_ascii is_ascii_digit_def)
next
  case False
  then have "spec_month [a] = None"
    by (cases "decimal [a]") (simp_all add: spec_month_def)
  then show ?thesis using False
    by (auto simp add: month_field_def is_ascii_digit_def)
qed

lemma month_eq_two:
  assumes "a \<noteq> 46" "b \<noteq> 46"
  shows "month_field (a # b # 46 # r) = map_option (\<lambda>m. (m, r)) (spec_month [a, b])"
proof (cases "is_ascii_digit a \<and> is_ascii_digit b")
  case True
  then show ?thesis using assms
    by (auto simp add: month_field_def spec_month_def decimal_two digit_value_ascii is_ascii_digit_def)
next
  case False
  then have "spec_month [a, b] = None"
    by (cases "decimal [a, b]") (auto simp add: spec_month_def)
  then show ?thesis using False assms
    by (auto simp add: month_field_def is_ascii_digit_def)
qed

lemma spec_month_long: "2 < length M \<Longrightarrow> spec_month M = None"
  by (simp add: spec_month_def split: option.splits)

lemma month_eq:
  assumes "46 \<notin> set M"
  shows "month_field (M @ 46 # r) = map_option (\<lambda>m. (m, r)) (spec_month M)"
proof -
  consider (e) "M = []" | (one) a where "M = [a]" | (two) a b where "M = [a, b]"
    | (more) a b c M' where "M = a # b # c # M'"
    by (cases M rule: list.exhaust; simp) (metis list.exhaust)
  then show ?thesis
  proof cases
    case e
    then show ?thesis
      by (auto simp add: month_field_def spec_month_def decimal_def split: list.splits)
  next
    case one
    then show ?thesis by (simp add: month_eq_one)
  next
    case two
    then show ?thesis using assms by (simp add: month_eq_two)
  next
    case more
    then have "spec_month M = None" by (simp add: spec_month_long)
    then show ?thesis using more assms by (simp add: month_field_def)
  qed
qed

lemma day_field_shape:
  "day_field s = Some (d, r) \<Longrightarrow> \<exists>D. s = D @ 46 # r \<and> 46 \<notin> set D"
proof -
  assume a: "day_field s = Some (d, r)"
  then obtain a b t where s: "s = a # b # t"
    by (auto simp add: day_field_def split: list.splits)
  show ?thesis
  proof (cases "b = 46")
    case True
    then have "t = r" "a \<noteq> 46" using a s by (auto simp add: day_field_def split: if_splits)
    then have "s = [a] @ 46 # r \<and> 46 \<notin> set [a]" using s True by simp
    then show ?thesis by blast
  next
    case False
    then have "t = 46 # r \<and> a \<noteq> 46" using a s
      by (auto simp add: day_field_def split: if_splits list.splits)
    then have "s = [a, b] @ 46 # r \<and> 46 \<notin> set [a, b]" using s False by simp
    then show ?thesis by blast
  qed
qed

lemma month_field_shape:
  "month_field s = Some (m, r) \<Longrightarrow> \<exists>M. s = M @ 46 # r \<and> 46 \<notin> set M"
proof -
  assume a: "month_field s = Some (m, r)"
  then obtain a b t where s: "s = a # b # t"
    by (auto simp add: month_field_def split: list.splits)
  show ?thesis
  proof (cases "b = 46")
    case True
    then have "t = r" "a \<noteq> 46" using a s by (auto simp add: month_field_def split: if_splits)
    then have "s = [a] @ 46 # r \<and> 46 \<notin> set [a]" using s True by simp
    then show ?thesis by blast
  next
    case False
    then have "t = 46 # r \<and> a \<noteq> 46" using a s
      by (auto simp add: month_field_def split: if_splits list.splits)
    then have "s = [a, b] @ 46 # r \<and> 46 \<notin> set [a, b]" using s False by simp
    then show ?thesis by blast
  qed
qed

lemma decimal_no_dot: "decimal Y = Some y \<Longrightarrow> 46 \<notin> set Y"
proof
  assume a: "decimal Y = Some y" and m: "46 \<in> set Y"
  have "those (map digit_value Y) = None" using m
  proof (induction Y)
    case Nil then show ?case by simp
  next
    case (Cons c Y)
    then show ?case by (cases "c = 46") (auto split: option.splits)
  qed
  then show False using a by (simp add: decimal_def split: if_splits)
qed

lemma spec_year_no_dot: "spec_year Y = Some y \<Longrightarrow> 46 \<notin> set Y"
  by (auto simp add: spec_year_def dest: decimal_no_dot split: if_splits)

lemma split_on_nonempty: "split_on sep s \<noteq> []"
  by (induction s) (auto split: list.splits)

lemma split_on_plain: "sep \<notin> set s \<Longrightarrow> split_on sep s = [s]"
  by (induction s) auto

lemma split_on_append:
  "sep \<notin> set D \<Longrightarrow> split_on sep (D @ sep # r) = D # split_on sep r"
  by (induction D) auto

lemma split_on_single: "split_on sep s = [f] \<Longrightarrow> s = f \<and> sep \<notin> set f"
proof (induction s arbitrary: f)
  case Nil then show ?case by simp
next
  case (Cons c s)
  show ?case
  proof (cases "c = sep")
    case True
    then show ?thesis using Cons.prems split_on_nonempty [of sep s] by simp
  next
    case False
    obtain g gs where g: "split_on sep s = g # gs"
      using split_on_nonempty [of sep s] by (cases "split_on sep s") auto
    then have "gs = []" "f = c # g" using Cons.prems False by auto
    then show ?thesis using Cons.IH [of g] g False by auto
  qed
qed

lemma split_on_cons:
  "split_on sep s = f # g # fs \<Longrightarrow> \<exists>r. s = f @ sep # r \<and> sep \<notin> set f \<and> split_on sep r = g # fs"
proof (induction s arbitrary: f)
  case Nil then show ?case by simp
next
  case (Cons c s)
  show ?case
  proof (cases "c = sep")
    case True
    then show ?thesis using Cons.prems by auto
  next
    case False
    obtain h hs where h: "split_on sep s = h # hs"
      using split_on_nonempty [of sep s] by (cases "split_on sep s") auto
    then have f: "f = c # h" and hs: "hs = g # fs" using Cons.prems False by auto
    then obtain r where "s = h @ sep # r \<and> sep \<notin> set h \<and> split_on sep r = g # fs"
      using Cons.IH [of h] h by auto
    then show ?thesis using f False by auto
  qed
qed

lemma split_on_three:
  "split_on sep s = [D, M, Y] \<longleftrightarrow>
     s = D @ sep # M @ sep # Y \<and> sep \<notin> set D \<and> sep \<notin> set M \<and> sep \<notin> set Y"
proof
  assume a: "split_on sep s = [D, M, Y]"
  then obtain r where r: "s = D @ sep # r" "sep \<notin> set D" "split_on sep r = [M, Y]"
    using split_on_cons [of sep s D M "[Y]"] by auto
  then obtain r' where r': "r = M @ sep # r'" "sep \<notin> set M" "split_on sep r' = [Y]"
    using split_on_cons [of sep r M Y "[]"] by auto
  then have "r' = Y \<and> sep \<notin> set Y" using split_on_single by auto
  then show "s = D @ sep # M @ sep # Y \<and> sep \<notin> set D \<and> sep \<notin> set M \<and> sep \<notin> set Y"
    using r r' by simp
next
  assume "s = D @ sep # M @ sep # Y \<and> sep \<notin> set D \<and> sep \<notin> set M \<and> sep \<notin> set Y"
  then show "split_on sep s = [D, M, Y]"
    by (simp add: split_on_append split_on_plain)
qed

lemma strptime_dmy_spec:
  "strptime_dmy s =
     (case spec_dmy s of None \<Rightarrow> None | Some ymd \<Rightarrow> if valid_date ymd then Some ymd else None)"
proof (cases "\<exists>D M Y. split_on 46 s = [D, M, Y]")
  case True
  then obtain D M Y where sp: "split_on 46 s = [D, M, Y]" by blast
  then have s: "s = D @ 46 # M @ 46 # Y" and nd: "46 \<notin> set D" "46 \<notin> set M"
    by (simp_all add: split_on_three)
  have d: "day_field s = map_option (\<lambda>d. (d, M @ 46 # Y)) (spec_day D)"
    unfolding s using nd(1) by (rule day_eq)
  have m: "month_field (M @ 46 # Y) = map_option (\<lambda>m. (m, Y)) (spec_month M)"
    using nd(2) by (rule month_eq)
  show ?thesis
    by (cases "spec_day D"; cases "spec_month M"; cases "spec_year Y")
       (simp_all add: strptime_dmy_def spec_dmy_def sp d m year_eq)
next
  case False
  then have n: "spec_dmy s = None"
    by (auto simp add: spec_dmy_def split: list.splits)
  have "strptime_dmy s = None"
  proof (rule ccontr)
    assume "strptime_dmy s \<noteq> None"
    then obtain d r m r' y where f: "day_field s = Some (d, r)" "month_field r = Some (m, r')"
        "year_field r' = Some y"
      by (auto simp add: strptime_dmy_def split: option.splits prod.splits if_splits)
    obtain D where D: "s = D @ 46 # r" "46 \<notin> set D" using day_field_shape [OF f(1)] by blast
    obtain M where M: "r = M @ 46 # r'" "46 \<notin> set M" using month_field_shape [OF f(2)] by blast
    have "46 \<notin> set r'" using f(3) by (simp add: year_eq spec_year_no_dot)
    then have "split_on 46 s = [D, M, r']" using D M by (simp add: split_on_three)
    then show False using False by blast
  qed
  then show ?thesis using n by simp
qed

lemma month_lengths_nth:
  assumes "1 \<le> m" "m \<le> 12"
  shows "month_lengths y ! (m - 1) = days_in_month y m"
proof -
  have "m = 1 \<or> m = 2 \<or> m = 3 \<or> m = 4 \<or> m = 5 \<or> m = 6 \<or> m = 7 \<or> m = 8 \<or> m = 9 \<or> m = 10 \<or>
        m = 11 \<or> m = 12"
    using assms by arith
  then show ?thesis
    by (elim disjE) (simp_all add: month_lengths_def days_in_month_def is_leap_def)
qed

lemma valid_date_spec:
  "valid_date ymd \<longleftrightarrow> spec_calendar_date ymd \<and> spec_timestamp_date ymd"
proof -
  obtain y m d where ymd: "ymd = (y, m, d)" by (cases ymd) auto
  show ?thesis
  proof (cases "1 \<le> m \<and> m \<le> 12 \<and> 1 \<le> d \<and> d \<le> days_in_month y m")
    case True
    then have "month_lengths y ! (m - 1) = days_in_month y m"
      by (intro month_lengths_nth) simp_all
    then have c: "spec_calendar_date ymd"
      using True by (simp add: ymd spec_calendar_date_def)
    have d: "d \<le> 31" using True days_in_month_le [of y m] by simp
    have "((1677 < y \<or> (y = 1677 \<and> (9 < m \<or> (m = 9 \<and> 22 \<le> d)))) \<and>
           (y < 2262 \<or> (y = 2262 \<and> (m < 4 \<or> (m = 4 \<and> d \<le> 11))))) \<longleftrightarrow>
          (16770922 \<le> 10000 * y + 100 * m + d \<and> 10000 * y + 100 * m + d \<le> 22620411)"
      using True d by arith
    then show ?thesis using True c
      by (simp add: ymd valid_date_def spec_timestamp_date_def)
  next
    case False
    have "month_lengths y ! (m - 1) = days_in_month y m" if "1 \<le> m" "m \<le> 12"
      using that by (rule month_lengths_nth)
    then have "\<not> spec_calendar_date ymd"
      using False by (auto simp add: ymd spec_calendar_date_def)
    then show ?thesis using False by (auto simp add: ymd valid_date_def)
  qed
qed

lemma digits_one: "n < 10 \<Longrightarrow> digits_of_nat n = [48 + n]"
  by (simp add: digits_of_nat.simps)

lemma digits_two: "10 \<le> n \<Longrightarrow> n < 100 \<Longrightarrow> digits_of_nat n = [48 + n div 10, 48 + n mod 10]"
  by (subst digits_of_nat.simps) (simp add: digits_one)

lemma digits_three:
  "100 \<le> n \<Longrightarrow> n < 1000 \<Longrightarrow> digits_of_nat n = [48 + n div 100, 48 + n div 10 mod 10, 48 + n mod 10]"
  by (subst digits_of_nat.simps) (simp add: digits_two div_mult2_eq [symmetric])

lemma digits_four:
  "1000 \<le> n \<Longrightarrow> n < 10000 \<Longrightarrow>
     digits_of_nat n = [48 + n div 1000, 48 + n div 100 mod 10, 48 + n div 10 mod 10, 48 + n mod 10]"
  by (subst digits_of_nat.simps) (simp add: digits_three div_mult2_eq [symmetric])

lemma zfill_two: "n < 100 \<Longrightarrow> zfill 2 (digits_of_nat n) = two_digits n"
  by (cases "n < 10") (simp_all add: zfill_def two_digits_def digits_one digits_two)

lemma zfill_four: "1000 \<le> n \<Longrightarrow> n < 10000 \<Longrightarrow> zfill 4 (digits_of_nat n) = four_digits n"
  by (simp add: zfill_def four_digits_def digits_four)

lemma strftime_spec_iso:
  assumes "valid_date ymd"
  shows "strftime_ymd (Some ymd) = CStr (spec_iso ymd)"
proof -
  obtain y m d where ymd: "ymd = (y, m, d)" by (cases ymd) auto
  have m: "m < 100" and d: "d < 100" and y: "1000 \<le> y" "y < 10000"
    using assms days_in_month_le [of y m] by (auto simp add: ymd valid_date_def)
  show ?thesis
    by (simp add: ymd strftime_ymd_def spec_iso_def zfill_two [OF m] zfill_two [OF d] zfill_four [OF y])
qed

lemma on_date_spec: "strftime_ymd (to_datetime_cell v) = spec_on_date v"
proof (cases "isna v")
  case True
  then show ?thesis by (simp add: to_datetime_cell_def spec_on_date_def strftime_ymd_def)
next
  case False
  show ?thesis
  proof (cases "spec_dmy (py_str v)")
    case None
    then show ?thesis using False
      by (simp add: to_datetime_cell_def spec_on_date_def strptime_dmy_spec strftime_ymd_def)
  next
    case (Some ymd)
    show ?thesis
    proof (cases "valid_date ymd")
      case True
      then show ?thesis using False Some strftime_spec_iso [OF True] valid_date_spec [of ymd]
        by (simp add: to_datetime_cell_def spec_on_date_def strptime_dmy_spec)
    next
      case f: False
      then show ?thesis using False Some valid_date_spec [of ymd]
        by (auto simp add: to_datetime_cell_def spec_on_date_def strptime_dmy_spec strftime_ymd_def)
    qed
  qed
qed

text \<open>
  Claim C6. For the balance table, whenever normalization returns a frame, it holds
  exactly one \<^verbatim>\<open>on_date\<close> column, and each of its values is the conversion of the value
  that was read, as the specification words it: the ISO year-month-day text of the date
  when the value is written as day.month.year and is a date of the calendar, and the
  null \<^verbatim>\<open>nan\<close> for every other value. Hence each value is a null or an ISO string, and a
  value that was a string never comes out as that same string. With one \<^verbatim>\<open>on_date\<close>
  column normalization does not raise, whatever the column holds.
\<close>

theorem balance_on_date_converted:
  "(\<forall>df. normalize (u ''ds.ft_balance_f'') df0 = Inr df \<longrightarrow>
      (\<exists>vs0 vs. column_values (u ''on_date'') (normalize_columns df0) = [vs0] \<and>
         column_values (u ''on_date'') df = [vs] \<and>
         list_all2 (\<lambda>v0 v. v = spec_on_date v0 \<and>
                            (v = CNaN \<or> (\<exists>s. v = CStr s \<and> is_iso_date s)) \<and>
                            (\<forall>s. v0 = CStr s \<longrightarrow> v \<noteq> v0)) vs0 vs)) \<and>
   (\<forall>vs0. column_values (u ''on_date'') (normalize_columns df0) = [vs0] \<longrightarrow>
      (\<exists>df. normalize (u ''ds.ft_balance_f'') df0 = Inr df))"
proof (intro conjI allI impI)
  fix df
  assume "normalize (u ''ds.ft_balance_f'') df0 = Inr df"
  then have "on_date_step (normalize_columns df0) = Inr df"
    by (simp add: normalize_balance)
  then obtain vs0 where c: "column_values (u ''on_date'') (normalize_columns df0) = [vs0]"
    and df: "df = assign_column (u ''on_date'') (map strftime_ymd (to_datetime vs0))
                    (normalize_columns df0)"
    using on_date_step_Inr by blast
  have out: "column_values (u ''on_date'') df = [map strftime_ymd (to_datetime vs0)]"
    using c df by (simp add: column_values_assign)
  have "list_all2 (\<lambda>v0 v. v = spec_on_date v0 \<and>
                            (v = CNaN \<or> (\<exists>s. v = CStr s \<and> is_iso_date s)) \<and>
                            (\<forall>s. v0 = CStr s \<longrightarrow> v \<noteq> v0))
          vs0 (map strftime_ymd (to_datetime vs0))"
    unfolding to_datetime_def list_all2_map2 map_map
  proof (rule list_all2_all_nthI)
    show "length vs0 = length vs0" by simp
  next
    fix n
    assume "n < length vs0"
    show "(strftime_ymd \<circ> to_datetime_cell) (vs0 ! n) = spec_on_date (vs0 ! n) \<and>
          ((strftime_ymd \<circ> to_datetime_cell) (vs0 ! n) = CNaN \<or>
           (\<exists>s. (strftime_ymd \<circ> to_datetime_cell) (vs0 ! n) = CStr s \<and> is_iso_date s)) \<and>
          (\<forall>s. vs0 ! n = CStr s \<longrightarrow> (strftime_ymd \<circ> to_datetime_cell) (vs0 ! n) \<noteq> vs0 ! n)"
      using on_date_cell [of "vs0 ! n"] on_date_spec [of "vs0 ! n"] by simp
  qed
  then show "\<exists>vs0 vs. column_values (u ''on_date'') (normalize_columns df0) = [vs0] \<and>
         column_values (u ''on_date'') df = [vs] \<and>
         list_all2 (\<lambda>v0 v. v = spec_on_date v0 \<and>
                            (v = CNaN \<or> (\<exists>s. v = CStr s \<and> is_iso_date s)) \<and>
                            (\<forall>s. v0 = CStr s \<longrightarrow> v \<noteq> v0)) vs0 vs"
    using c out by blast
next
  fix vs0
  assume "column_values (u ''on_date'') (normalize_columns df0) = [vs0]"
  then show "\<exists>df. normalize (u ''ds.ft_balance_f'') df0 = Inr df"
    by (simp add: normalize_balance on_date_step_def)
qed

theorem balance_on_date_converted_witness:
  "normalize (u ''ds.ft_balance_f'')
     [(u '' ON_DATE '', Object,
         [CStr (u ''15.01.2018''), CStr (u ''29.02.2020''), CStr (u ''5.3.2019''),
          CStr (u '' 7.12.1999''), CStr (u ''15.01.'' @ [1634, 1632, 1633, 1640]),
          CStr (u ''22.09.1677''), CStr (u ''11.04.2262''), CStr (u ''29.02.2000''),
          CStr (u ''29.02.1900''), CStr (u ''29.02.2018''), CStr (u ''31.04.2018''),
          CStr (u ''1.13.2018''), CStr (u ''15.01.18''), CStr (u ''2018-01-15''),
          CStr (u ''bad''), CInt 15012018, CNaN, CBool True]),
      (u ''account_rk'', Int64,
         [CInt 1, CInt 2, CInt 3, CInt 4, CInt 5, CInt 6, CInt 7, CInt 8, CInt 9, CInt 10,
          CInt 11, CInt 12, CInt 13, CInt 14, CInt 15, CInt 16, CInt 17, CInt 18])] =
   Inr [(u ''on_date'', Object,
         [CStr (u ''2018-01-15''), CStr (u ''2020-02-29''), CStr (u ''2019-03-05''),
          CStr (u ''1999-12-07''), CStr (u ''2018-01-15''), CStr (u ''1677-09-22''),
          CStr (u ''2262-04-11''), CStr (u ''2000-02-29''), CNaN, CNaN, CNaN, CNaN, CNaN,
          CNaN, CNaN, CNaN, CNaN, CNaN]),
      (u ''account_rk'', Int64,
         [CInt 1, CInt 2, CInt 3, CInt 4, CInt 5, CInt 6, CInt 7, CInt 8, CInt 9, CInt 10,
          CInt 11, CInt 12, CInt 13, CInt 14, CInt 15, CInt 16, CInt 17, CInt 18])] \<and>
   map spec_on_date
     [CStr (u ''15.01.2018''), CStr (u ''29.02.2020''), CStr (u ''5.3.2019''),
          CStr (u '' 7.12.1999''), CStr (u ''15.01.'' @ [1634, 1632, 1633, 1640]),
          CStr (u ''22.09.1677''), CStr (u ''11.04.2262''), CStr (u ''29.02.2000''),
          CStr (u ''29.02.1900''), CStr (u ''29.02.2018''), CStr (u ''31.04.2018''),
          CStr (u ''1.13.2018''), CStr (u ''15.01.18''), CStr (u ''2018-01-15''),
          CStr (u ''bad''), CInt 15012018, CNaN, CBool True] =
     [CStr (u ''2018-01-15''), CStr (u ''2020-02-29''), CStr (u ''2019-03-05''),
          CStr (u ''1999-12-07''), CStr (u ''2018-01-15''), CStr (u ''1677-09-22''),
          CStr (u ''2262-04-11''), CStr (u ''2000-02-29''), CNaN, CNaN, CNaN, CNaN, CNaN,
          CNaN, CNaN, CNaN, CNaN, CNaN] \<and>
   (\<exists>vs0 vs.
      column_values (u ''on_date'') (normalize_columns
        [(u '' ON_DATE '', Object,
         [CStr (u ''15.01.2018''), CStr (u ''29.02.2020''), CStr (u ''5.3.2019''),
          CStr (u '' 7.12.1999''), CStr (u ''15.01.'' @ [1634, 1632, 1633, 1640]),
          CStr (u ''22.09.1677''), CStr (u ''11.04.2262''), CStr (u ''29.02.2000''),
          CStr (u ''29.02.1900''), CStr (u ''29.02.2018''), CStr (u ''31.04.2018''),
          CStr (u ''1.13.2018''), CStr (u ''15.01.18''), CStr (u ''2018-01-15''),
          CStr (u ''bad''), CInt 15012018, CNaN, CBool True]),
      (u ''account_rk'', Int64,
         [CInt 1, CInt 2, CInt 3, CInt 4, CInt 5, CInt 6, CInt 7, CInt 8, CInt 9, CInt 10,
          CInt 11, CInt 12, CInt 13, CInt 14, CInt 15, CInt 16, CInt 17, CInt 18])]) = [vs0] \<and>
      column_values (u ''on_date'')
        [(u ''on_date'', Object,
         [CStr (u ''2018-01-15''), CStr (u ''2020-02-29''), CStr (u ''2019-03-05''),
          CStr (u ''1999-12-07''), CStr (u ''2018-01-15''), CStr (u ''1677-09-22''),
          CStr (u ''2262-04-11''), CStr (u ''2000-02-29''), CNaN, CNaN, CNaN, CNaN, CNaN,
          CNaN, CNaN, CNaN, CNaN, CNaN]),
      (u ''account_rk'', Int64,
         [CInt 1, CInt 2, CInt 3, CInt 4, CInt 5, CInt 6, CInt 7, CInt 8, CInt 9, CInt 10,
          CInt 11, CInt 12, CInt 13, CInt 14, CInt 15, CInt 16, CInt 17, CInt 18])] = [vs] \<and>
      list_all2 (\<lambda>v0 v. v = spec_on_date v0 \<and>
                         (v = CNaN \<or> (\<exists>s. v = CStr s \<and> is_iso_date s)) \<and>
                         (\<forall>s. v0 = CStr s \<longrightarrow> v \<noteq> v0)) vs0 vs)"
proof -
  have n: "normalize (u ''ds.ft_balance_f'')
     [(u '' ON_DATE '', Object,
         [CStr (u ''15.01.2018''), CStr (u ''29.02.2020''), CStr (u ''5.3.2019''),
          CStr (u '' 7.12.1999''), CStr (u ''15.01.'' @ [1634, 1632, 1633, 1640]),
          CStr (u ''22.09.1677''), CStr (u ''11.04.2262''), CStr (u ''29.02.2000''),
          CStr (u ''29.02.1900''), CStr (u ''29.02.2018''), CStr (u ''31.04.2018''),
          CStr (u ''1.13.2018''), CStr (u ''15.01.18''), CStr (u ''2018-01-15''),
          CStr (u ''bad''), CInt 15012018, CNaN, CBool True]),
      (u ''account_rk'', Int64,
         [CInt 1, CInt 2, CInt 3, CInt 4, CInt 5, CInt 6, CInt 7, CInt 8, CInt 9, CInt 10,
          CInt 11, CInt 12, CInt 13, CInt 14, CInt 15, CInt 16, CInt 17, CInt 18])] =
   Inr [(u ''on_date'', Object,
         [CStr (u ''2018-01-15''), CStr (u ''2020-02-29''), CStr (u ''2019-03-05''),
          CStr (u ''1999-12-07''), CStr (u ''2018-01-15''), CStr (u ''1677-09-22''),
          CStr (u ''2262-04-11''), CStr (u ''2000-02-29''), CNaN, CNaN, CNaN, CNaN, CNaN,
          CNaN, CNaN, CNaN, CNaN, CNaN]),
      (u ''account_rk'', Int64,
         [CInt 1, CInt 2, CInt 3, CInt 4, CInt 5, CInt 6, CInt 7, CInt 8, CInt 9, CInt 10,
          CInt 11, CInt 12, CInt 13, CInt 14, CInt 15, CInt 16, CInt 17, CInt 18])]"
    by (simp add: normalize_defs)
  have sp: "map spec_on_date
     [CStr (u ''15.01.2018''), CStr (u ''29.02.2020''), CStr (u ''5.3.2019''),
          CStr (u '' 7.12.1999''), CStr (u ''15.01.'' @ [1634, 1632, 1633, 1640]),
          CStr (u ''22.09.1677''), CStr (u ''11.04.2262''), CStr (u ''29.02.2000''),
          CStr (u ''29.02.1900''), CStr (u ''29.02.2018''), CStr (u ''31.04.2018''),
          CStr (u ''1.13.2018''), CStr (u ''15.01.18''), CStr (u ''2018-01-15''),
          CStr (u ''bad''), CInt 15012018, CNaN, CBool True] =
     [CStr (u ''2018-01-15''), CStr (u ''2020-02-29''), CStr (u ''2019-03-05''),
          CStr (u ''1999-12-07''), CStr (u ''2018-01-15''), CStr (u ''1677-09-22''),
          CStr (u ''2262-04-11''), CStr (u ''2000-02-29''), CNaN, CNaN, CNaN, CNaN, CNaN,
          CNaN, CNaN, CNaN, CNaN, CNaN]"
    by (simp add: spec_date_defs)
  show ?thesis
    using n sp balance_on_date_converted
      [of "[(u '' ON_DATE '', Object,
         [CStr (u ''15.01.2018''), CStr (u ''29.02.2020''), CStr (u ''5.3.2019''),
          CStr (u '' 7.12.1999''), CStr (u ''15.01.'' @ [1634, 1632, 1633, 1640]),
          CStr (u ''22.09.1677''), CStr (u ''11.04.2262''), CStr (u ''29.02.2000''),
          CStr (u ''29.02.1900''), CStr (u ''29.02.2018''), CStr (u ''31.04.2018''),
          CStr (u ''1.13.2018''), CStr (u ''15.01.18''), CStr (u ''2018-01-15''),
          CStr (u ''bad''), CInt 15012018, CNaN, CBool True]),
      (u ''account_rk'', Int64,
         [CInt 1, CInt 2, CInt 3, CInt 4, CInt 5, CInt 6, CInt 7, CInt 8, CInt 9, CInt 10,
          CInt 11, CInt 12, CInt 13, CInt 14, CInt 15, CInt 16, CInt 17, CInt 18])]"]
    by blast
qed

subsection \<open>The currency columns\<close>

lemma columns_map_column: "columns (map_column col f df) = columns df"
  by (induction df) (auto simp add: columns_def map_column_def)

lemma count_col_map_column: "count_col col (map_column col' f df) = count_col col df"
  by (simp add: count_col_def columns_map_column)

lemma column_values_map_column_same:
  "column_values col (map_column col f df) = map (map f) (column_values col df)"
  by (induction df) (auto simp add: column_values_def map_column_def split: if_splits)

lemma column_values_map_column_other:
  "col \<noteq> col' \<Longrightarrow> column_values col (map_column col' f df) = column_values col df"
  by (induction df) (auto simp add: column_values_def map_column_def split: if_splits)

lemma column_values_absent:
  "col \<notin> set (columns df) \<Longrightarrow> column_values col df = []"
  by (induction df) (auto simp add: column_values_def columns_def)

lemma count_col_pos:
  "col \<in> set (columns df) \<Longrightarrow> 0 < count_col col df"
  by (simp add: count_col_def filter_empty_conv)

lemma columns_currency_step: "columns (currency_step col df) = columns df"
  by (simp add: currency_step_def columns_map_column)

lemma count_col_currency_step: "count_col col (currency_step col' df) = count_col col df"
  by (simp add: count_col_def columns_currency_step)

lemma column_values_currency_step_same:
  assumes "count_col col df \<le> 1"
  shows "column_values col (currency_step col df) =
         map (map (\<lambda>v0. first_three (astype_str_replace v0))) (column_values col df)"
proof (cases "col \<in> set (columns df)")
  case True
  then have "count_col col df = 1"
    using assms count_col_pos [of col df] by simp
  then show ?thesis
    using True by (simp add: currency_step_def column_values_map_column_same comp_def)
next
  case False
  then show ?thesis
    by (simp add: currency_step_def column_values_absent)
qed

lemma column_values_currency_step_other:
  "col \<noteq> col' \<Longrightarrow> column_values col (currency_step col' df) = column_values col df"
  by (simp add: currency_step_def column_values_map_column_other)

lemma normalize_currency:
  "normalize (u ''ds.md_currency_d'') df0 =
   Inr (currency_step (u ''code_iso_char'') (currency_step (u ''currency_code'') (normalize_columns df0)))"
  using balance_not_currency by (simp add: normalize_def)

lemma short_not_token:
  "length s \<le> 3 \<Longrightarrow> s \<noteq> u ''None'' \<and> s \<noteq> u ''<NA>''"
  by (auto simp add: u_def)

lemma currency_cell:
  "first_three (astype_str_replace v0) = CNone \<or>
   (\<exists>s. first_three (astype_str_replace v0) = CStr s \<and> length s \<le> 3 \<and>
        s \<noteq> u ''None'' \<and> s \<noteq> u ''<NA>'')"
proof (cases "py_str v0 \<in> set [u ''nan'', u ''None'', u ''<NA>'']")
  case True
  then show ?thesis
    by (simp add: first_three_def astype_str_replace_def)
next
  case False
  then have "first_three (astype_str_replace v0) = CStr (take 3 (py_str v0))"
    by (simp add: first_three_def astype_str_replace_def)
  moreover have "length (take 3 (py_str v0)) \<le> 3"
    by simp
  ultimately show ?thesis
    using short_not_token [of "take 3 (py_str v0)"] by blast
qed

lemma currency_cell_nan:
  assumes "first_three (astype_str_replace v0) = CStr (u ''nan'')"
  shows "3 < length (py_str v0) \<and> take 3 (py_str v0) = u ''nan''"
proof -
  have ne: "py_str v0 \<noteq> u ''nan''" and t: "take 3 (py_str v0) = u ''nan''"
    using assms by (auto simp add: first_three_def astype_str_replace_def split: if_splits)
  have "\<not> length (py_str v0) \<le> 3"
  proof
    assume "length (py_str v0) \<le> 3"
    then have "take 3 (py_str v0) = py_str v0" by simp
    then show False using ne t by simp
  qed
  then show ?thesis using t by simp
qed

lemma code_cols_distinct: "u ''currency_code'' \<noteq> u ''code_iso_char''"
  by (simp add: u_def)

text \<open>
  Claim C7, as amended. For the currency table normalization never raises. For each of
  the designated columns \<^verbatim>\<open>currency_code\<close> and \<^verbatim>\<open>code_iso_char\<close> that the normalized
  header names at most once, every value becomes the first three characters of its
  \<^verbatim>\<open>str\<close>, or the null when that \<^verbatim>\<open>str\<close> is one of the three tokens: so every value is
  null or a string of at most three characters, and it is never \<^verbatim>\<open>None\<close> or \<^verbatim>\<open><NA>\<close>.
  The string \<^verbatim>\<open>nan\<close> does come out, and only as the cut of a longer string that begins
  with it.
\<close>

theorem currency_strings_null_or_three:
  assumes "col = u ''currency_code'' \<or> col = u ''code_iso_char''"
    and "count_col col (normalize_columns df0) \<le> 1"
  shows "\<exists>df. normalize (u ''ds.md_currency_d'') df0 = Inr df \<and>
          column_values col df =
            map (map (\<lambda>v0. first_three (astype_str_replace v0)))
              (column_values col (normalize_columns df0)) \<and>
          (\<forall>vs \<in> set (column_values col df). \<forall>v \<in> set vs.
              v = CNone \<or> (\<exists>s. v = CStr s \<and> length s \<le> 3 \<and> s \<noteq> u ''None'' \<and> s \<noteq> u ''<NA>'')) \<and>
          (\<forall>v0. first_three (astype_str_replace v0) = CStr (u ''nan'') \<longrightarrow>
              3 < length (py_str v0) \<and> take 3 (py_str v0) = u ''nan'')"
proof -
  let ?df = "currency_step (u ''code_iso_char'')
               (currency_step (u ''currency_code'') (normalize_columns df0))"
  have v: "column_values col ?df =
      map (map (\<lambda>v0. first_three (astype_str_replace v0)))
        (column_values col (normalize_columns df0))"
    using assms(1)
  proof
    assume c: "col = u ''currency_code''"
    show ?thesis
      using assms(2) code_cols_distinct
      by (simp add: c column_values_currency_step_other column_values_currency_step_same)
  next
    assume c: "col = u ''code_iso_char''"
    have "count_col col (currency_step (u ''currency_code'') (normalize_columns df0)) \<le> 1"
      using assms(2) by (simp add: count_col_currency_step)
    then show ?thesis
      using code_cols_distinct
      by (simp add: c column_values_currency_step_other column_values_currency_step_same)
  qed
  have p: "\<forall>vs \<in> set (column_values col ?df). \<forall>v \<in> set vs.
      v = CNone \<or> (\<exists>s. v = CStr s \<and> length s \<le> 3 \<and> s \<noteq> u ''None'' \<and> s \<noteq> u ''<NA>'')"
    unfolding v using currency_cell by auto
  show ?thesis
    using v p currency_cell_nan by (simp add: normalize_currency)
qed

theorem currency_strings_null_or_three_witness:
  "normalize (u ''ds.md_currency_d'')
     [(u ''currency_code'', Object, [CInt 643, CNaN]),
      (u ''CODE_ISO_CHAR'', Object, [CStr (u ''RUBL''), CNaN])] =
   Inr [(u ''currency_code'', Object, [CStr (u ''643''), CNone]),
        (u ''code_iso_char'', Object, [CStr (u ''RUB''), CNone])] \<and>
   column_values (u ''code_iso_char'')
     [(u ''currency_code'', Object, [CStr (u ''643''), CNone]),
      (u ''code_iso_char'', Object, [CStr (u ''RUB''), CNone])] =
   map (map (\<lambda>v0. first_three (astype_str_replace v0)))
     (column_values (u ''code_iso_char'') (normalize_columns
        [(u ''currency_code'', Object, [CInt 643, CNaN]),
      (u ''CODE_ISO_CHAR'', Object, [CStr (u ''RUBL''), CNaN])]))"
proof -
  have a: "u ''code_iso_char'' = u ''currency_code'' \<or> u ''code_iso_char'' = u ''code_iso_char''"
    by simp
  have c: "count_col (u ''code_iso_char'') (normalize_columns
        [(u ''currency_code'', Object, [CInt 643, CNaN]),
      (u ''CODE_ISO_CHAR'', Object, [CStr (u ''RUBL''), CNaN])]) \<le> 1"
    by (simp add: normalize_defs)
  have n: "normalize (u ''ds.md_currency_d'')
     [(u ''currency_code'', Object, [CInt 643, CNaN]),
      (u ''CODE_ISO_CHAR'', Object, [CStr (u ''RUBL''), CNaN])] =
   Inr [(u ''currency_code'', Object, [CStr (u ''643''), CNone]),
        (u ''code_iso_char'', Object, [CStr (u ''RUB''), CNone])]"
    by (simp add: normalize_defs)
  show ?thesis
    using n currency_strings_null_or_three [OF a c] by auto
qed

text \<open>
  Claim C7 as stated fails: a value that begins with \<^verbatim>\<open>nan\<close> and is longer is not one of
  the tokens, so it is kept, and its first three characters are the literal \<^verbatim>\<open>nan\<close>.
\<close>

theorem currency_nan_literal_counterexample:
  "normalize (u ''ds.md_currency_d'') [(u ''code_iso_char'', Object, [CStr (u ''nano'')])] =
     Inr [(u ''code_iso_char'', Object, [CStr (u ''nan'')])]"
  by (simp add: normalize_defs)

section \<open>Properties of the encoding resolver\<close>

lemma encodings_distinct_utf16:
  "u ''utf-8-sig'' \<noteq> u ''utf-16-le''" "u ''cp1251'' \<noteq> u ''utf-16-le''" "u ''latin1'' \<noteq> u ''utf-16-le''"
  by (simp_all add: u_def)

lemma try_encodings_result_indep:
  "fst (try_encodings ev file_path encs w) = fst (try_encodings ev file_path encs w')"
  by (induction encs arbitrary: w w') (auto split: sum.splits)

text \<open>
  Claim C5. Whatever the file, the result is that of the first of the four attempts
  that does not raise, taken in the order \<^verbatim>\<open>utf-8-sig\<close>, \<^verbatim>\<open>cp1251\<close>, \<^verbatim>\<open>latin1\<close>,
  \<^verbatim>\<open>utf-16-le\<close>; every attempt parses with the separator \<^verbatim>\<open>;\<close>, and the last one decodes
  the bytes of the file after dropping a leading \<^verbatim>\<open>FF FE\<close>. When all four raise, the
  result is the \<^verbatim>\<open>ValueError\<close> whose message ends with the list of the four encodings.
\<close>

theorem read_csv_tries_in_order:
  "fst (read_csv_with_encoding_tries ev file_path w) =
     (case pd_read_csv ev (FromPath file_path) (u '';'') (Some (u ''utf-8-sig'')) of
        Inr df \<Rightarrow> Inr df
      | Inl e1 \<Rightarrow>
     (case pd_read_csv ev (FromPath file_path) (u '';'') (Some (u ''cp1251'')) of
        Inr df \<Rightarrow> Inr df
      | Inl e2 \<Rightarrow>
     (case pd_read_csv ev (FromPath file_path) (u '';'') (Some (u ''latin1'')) of
        Inr df \<Rightarrow> Inr df
      | Inl e3 \<Rightarrow>
     (case (case open_rb_read ev file_path of
              Inl e \<Rightarrow> Inl e
            | Inr content \<Rightarrow>
                (case bytes_decode ev (if take 2 content = [255, 254] then drop 2 content else content)
                        (u ''utf-16-le'') of
                   Inl e \<Rightarrow> Inl e
                 | Inr decoded \<Rightarrow> pd_read_csv ev (FromText decoded) (u '';'') None)) of
        Inr df \<Rightarrow> Inr df
      | Inl e4 \<Rightarrow>
          Inl (ValueError (unreadable_message file_path
                 [u ''utf-8-sig'', u ''cp1251'', u ''latin1'', u ''utf-16-le'']))))))
   \<and> (\<exists>text. unreadable_message file_path [u ''utf-8-sig'', u ''cp1251'', u ''latin1'', u ''utf-16-le''] =
         text @ u ''['utf-8-sig', 'cp1251', 'latin1', 'utf-16-le']'')"
proof
  show "\<exists>text. unreadable_message file_path [u ''utf-8-sig'', u ''cp1251'', u ''latin1'', u ''utf-16-le''] =
         text @ u ''['utf-8-sig', 'cp1251', 'latin1', 'utf-16-le']''"
  proof -
    have "py_repr_list [u ''utf-8-sig'', u ''cp1251'', u ''latin1'', u ''utf-16-le''] =
        u ''['utf-8-sig', 'cp1251', 'latin1', 'utf-16-le']''"
      by (simp add: py_repr_list_def py_repr_str_def u_def)
    then show ?thesis
      unfolding unreadable_message_def by (metis append_assoc)
  qed
next
  show "fst (read_csv_with_encoding_tries ev file_path w) =
     (case pd_read_csv ev (FromPath file_path) (u '';'') (Some (u ''utf-8-sig'')) of
        Inr df \<Rightarrow> Inr df
      | Inl e1 \<Rightarrow>
     (case pd_read_csv ev (FromPath file_path) (u '';'') (Some (u ''cp1251'')) of
        Inr df \<Rightarrow> Inr df
      | Inl e2 \<Rightarrow>
     (case pd_read_csv ev (FromPath file_path) (u '';'') (Some (u ''latin1'')) of
        Inr df \<Rightarrow> Inr df
      | Inl e3 \<Rightarrow>
     (case (case open_rb_read ev file_path of
              Inl e \<Rightarrow> Inl e
            | Inr content \<Rightarrow>
                (case bytes_decode ev (if take 2 content = [255, 254] then drop 2 content else content)
                        (u ''utf-16-le'') of
                   Inl e \<Rightarrow> Inl e
                 | Inr decoded \<Rightarrow> pd_read_csv ev (FromText decoded) (u '';'') None)) of
        Inr df \<Rightarrow> Inr df
      | Inl e4 \<Rightarrow>
          Inl (ValueError (unreadable_message file_path
                 [u ''utf-8-sig'', u ''cp1251'', u ''latin1'', u ''utf-16-le''])))))) "
    by (simp add: read_csv_with_encoding_tries_def encodings_def read_attempt_def
        encodings_distinct_utf16 split: sum.splits)
qed

theorem read_csv_tries_in_order_witness:
  "fst (read_csv_with_encoding_tries example_env (u ''good.csv'') (example_world [])) =
     Inr [(u ''ACCOUNT_RK '', Int64, [CInt 1, CInt 2]),
                (u ''amount'', Float64, [CNaN, CFloat (u ''1.5'')])] \<and>
   fst (read_csv_with_encoding_tries example_env (u ''bad.csv'') (example_world [])) =
     Inl (ValueError (unreadable_message (u ''bad.csv'')
            [u ''utf-8-sig'', u ''cp1251'', u ''latin1'', u ''utf-16-le'']))"
  using read_csv_tries_in_order [of example_env "u ''good.csv''" "example_world []"]
    read_csv_tries_in_order [of example_env "u ''bad.csv''" "example_world []"]
  by (simp add: example_env_def u_def)

section \<open>Traces\<close>

lemma queries_distinct [simp]:
  "truncate_query \<noteq> log_end_query" "truncate_query \<noteq> log_start_query"
  "u ''BEGIN;'' \<noteq> log_end_query" "u ''BEGIN;'' \<noteq> log_start_query"
  "log_start_query \<noteq> log_end_query" "log_end_query \<noteq> log_start_query"
  "u ''BEGIN;'' \<noteq> truncate_query"
  by (simp_all add: truncate_query_def log_end_query_def log_start_query_def u_def nl_def sp_def)

lemma trace_emit [simp]: "trace (emit ev w) = trace w @ [ev]"
  by (simp add: emit_def)

lemma trace_logger [simp]: "trace (logger line args w) = trace w @ [Log line args]"
  by (simp add: logger_def)

lemma trace_next_outcome [simp]: "trace (snd (next_outcome w)) = trace w"
  by (simp add: next_outcome_def split: list.splits)

lemma trace_datetime_now [simp]: "trace (snd (datetime_now w)) = trace w"
  by (simp add: datetime_now_def)

lemma trace_cursor_execute [simp]:
  "trace (snd (cursor_execute query params w)) = trace w @ [Execute query params (fst (next_outcome w))]"
  by (simp add: cursor_execute_def Let_def case_prod_beta split: option.splits)

lemma fst_cursor_execute [simp]:
  "fst (cursor_execute query params w) = fst (next_outcome w)"
  by (simp add: cursor_execute_def Let_def case_prod_beta split: option.splits)

lemma trace_conn_commit [simp]:
  "trace (snd (conn_commit w)) = trace w @ [Commit (fst (next_outcome w))]"
  by (simp add: conn_commit_def Let_def case_prod_beta split: option.splits)

lemma fst_conn_commit [simp]:
  "fst (conn_commit w) = fst (next_outcome w)"
  by (simp add: conn_commit_def Let_def case_prod_beta split: option.splits)

lemma trace_conn_rollback [simp]: "trace (conn_rollback w) = trace w @ [Rollback]"
  by (simp add: conn_rollback_def)

lemma attempts_append [simp]: "attempts (xs @ ys) = attempts xs @ attempts ys"
  by (simp add: attempts_def)

lemma attempts_Nil [simp]: "attempts [] = []"
  by (simp add: attempts_def)

lemma attempts_Cons [simp]: "attempts (ev # evs) = load_begin ev @ attempts evs"
  by (simp add: attempts_def)

lemma attempts_try_encodings:
  "attempts (trace (snd (try_encodings ev file_path encs w))) = attempts (trace w)"
  by (induction encs arbitrary: w) (auto split: sum.splits)

lemma attempts_read:
  "attempts (trace (snd (read_csv_with_encoding_tries ev file_path w))) = attempts (trace w)"
  using attempts_try_encodings [of ev file_path encodings w]
  by (simp add: read_csv_with_encoding_tries_def case_prod_beta split: option.splits)

lemma attempts_execute_sql:
  "attempts (trace (snd (execute_sql query params w))) = attempts (trace w)"
  by (simp add: execute_sql_def case_prod_beta split: option.splits)

lemma attempts_log_etl_start:
  "attempts (trace (snd (log_etl_start table_name w))) = attempts (trace w)"
  by (simp add: log_etl_start_def case_prod_beta split: option.splits sum.splits)

lemma attempts_log_etl_end:
  "attempts (trace (snd (log_etl_end log_id table_name status n error_msg w))) = attempts (trace w)"
  by (simp add: log_etl_end_def case_prod_beta attempts_execute_sql split: option.splits sum.splits)

lemma attempts_execute_pages:
  "attempts (trace (snd (execute_pages query pages w))) = attempts (trace w)"
  by (induction pages arbitrary: w) (simp_all add: case_prod_beta Let_def split: option.splits)

lemma attempts_insert_failed:
  "attempts (trace (snd (insert_failed table_name df e w))) = attempts (trace w)"
  by (simp add: insert_failed_def Let_def)

lemma attempts_batch_insert:
  "attempts (trace (snd (batch_insert table_name df query data w))) = attempts (trace w)"
  by (simp add: batch_insert_def execute_batch_def case_prod_beta Let_def attempts_execute_pages
      attempts_insert_failed split: option.splits)

lemma attempts_truncate_step:
  "attempts (trace (snd (truncate_step table_name w))) = attempts (trace w)"
  by (simp add: truncate_step_def case_prod_beta attempts_execute_sql split: sum.splits)

lemma attempts_load_try:
  "attempts (trace (snd (load_try ev table_name file_path w))) = attempts (trace w)"
  by (simp add: load_try_def case_prod_beta attempts_read attempts_truncate_step
      attempts_batch_insert split: sum.splits)

lemma attempts_load_data_from_csv:
  "attempts (trace (snd (load_data_from_csv ev table_name file_path w))) =
   attempts (trace w) @ [(table_name, file_path)]"
  by (simp add: load_data_from_csv_def case_prod_beta Let_def attempts_log_etl_start
      attempts_log_etl_end attempts_load_try split: sum.splits)

lemma attempts_load_tables:
  "attempts (trace (load_tables ev mapping w)) = attempts (trace w) @ mapping"
proof (induction mapping arbitrary: w)
  case Nil
  then show ?case by simp
next
  case (Cons tp rest)
  obtain table_name file_path where tp: "tp = (table_name, file_path)" by (cases tp) auto
  show ?case
    using attempts_load_data_from_csv [of ev table_name file_path w]
    by (simp add: tp Cons.IH case_prod_beta split: sum.splits)
qed

section \<open>The run log\<close>


lemma end_calls_simps [simp]:
  "end_calls [] = []"
  "end_calls (ev # evs) = (if is_end_call ev then ev # end_calls evs else end_calls evs)"
  "end_calls (xs @ ys) = end_calls xs @ end_calls ys"
  by (simp_all add: end_calls_def)

lemma end_calls_try_encodings:
  "end_calls (trace (snd (try_encodings ev file_path encs w))) = end_calls (trace w)"
  by (induction encs arbitrary: w) (auto split: sum.splits)

lemma end_calls_read:
  "end_calls (trace (snd (read_csv_with_encoding_tries ev file_path w))) = end_calls (trace w)"
  using end_calls_try_encodings [of ev file_path encodings w]
  by (simp add: read_csv_with_encoding_tries_def case_prod_beta split: option.splits)

lemma end_calls_log_etl_start:
  "end_calls (trace (snd (log_etl_start table_name w))) = end_calls (trace w)"
  by (simp add: log_etl_start_def case_prod_beta split: option.splits sum.splits)

lemma end_calls_execute_pages:
  "end_calls (trace (snd (execute_pages query pages w))) = end_calls (trace w)"
  by (induction pages arbitrary: w) (simp_all add: case_prod_beta Let_def split: option.splits)

lemma end_calls_insert_failed:
  "end_calls (trace (snd (insert_failed table_name df e w))) = end_calls (trace w)"
  by (simp add: insert_failed_def Let_def)

lemma end_calls_batch_insert:
  "end_calls (trace (snd (batch_insert table_name df query data w))) = end_calls (trace w)"
  by (simp add: batch_insert_def execute_batch_def case_prod_beta Let_def end_calls_execute_pages
      end_calls_insert_failed split: option.splits)

lemma end_calls_truncate_step:
  "end_calls (trace (snd (truncate_step table_name w))) = end_calls (trace w)"
  by (simp add: truncate_step_def execute_sql_def case_prod_beta split: sum.splits option.splits)

lemma end_calls_load_try:
  "end_calls (trace (snd (load_try ev table_name file_path w))) = end_calls (trace w)"
  by (simp add: load_try_def case_prod_beta end_calls_read end_calls_truncate_step
      end_calls_batch_insert split: sum.splits)


lemma next_outcome_fields [simp]:
  "pending (snd (next_outcome w)) = pending w"
  "etl_logs (snd (next_outcome w)) = etl_logs w"
  "log_id_seq (snd (next_outcome w)) = log_id_seq w"
  "clock (snd (next_outcome w)) = clock w"
  "fetched (snd (next_outcome w)) = fetched w"
  by (simp_all add: next_outcome_def split: list.splits)

lemma emit_fields [simp]:
  "pending (emit ev w) = pending w"
  "etl_logs (emit ev w) = etl_logs w"
  "log_id_seq (emit ev w) = log_id_seq w"
  "clock (emit ev w) = clock w"
  "script (emit ev w) = script w"
  "fetched (emit ev w) = fetched w"
  by (simp_all add: emit_def)

lemma logger_fields [simp]:
  "pending (logger line args w) = pending w"
  "etl_logs (logger line args w) = etl_logs w"
  "log_id_seq (logger line args w) = log_id_seq w"
  "clock (logger line args w) = clock w"
  "script (logger line args w) = script w"
  by (simp_all add: logger_def)

lemma datetime_now_fields [simp]:
  "pending (snd (datetime_now w)) = pending w"
  "etl_logs (snd (datetime_now w)) = etl_logs w"
  "log_id_seq (snd (datetime_now w)) = log_id_seq w"
  "script (snd (datetime_now w)) = script w"
  "fst (datetime_now w) = clock w"
  by (simp_all add: datetime_now_def)

lemma rollback_fields [simp]:
  "pending (conn_rollback w) = []"
  "etl_logs (conn_rollback w) = etl_logs w"
  by (simp_all add: conn_rollback_def)

lemma commit_fields:
  "etl_logs (snd (conn_commit w)) =
     (case fst (next_outcome w) of None \<Rightarrow> foldl apply_audit (etl_logs w) (pending w) | Some e \<Rightarrow> etl_logs w)"
  "pending (snd (conn_commit w)) =
     (case fst (next_outcome w) of None \<Rightarrow> [] | Some e \<Rightarrow> pending w)"
  by (simp_all add: conn_commit_def Let_def case_prod_beta split: option.splits)

lemma execute_other_fields:
  assumes "query \<noteq> log_start_query" and "query \<noteq> log_end_query"
  shows "pending (snd (cursor_execute query params w)) = pending w"
    and "etl_logs (snd (cursor_execute query params w)) = etl_logs w"
  using assms by (simp_all add: cursor_execute_def Let_def case_prod_beta split: option.splits)

lemma settled_execute_pages:
  "pending w = [] \<Longrightarrow> settled w (snd (execute_pages query pages w))"
  by (induction pages arbitrary: w)
    (simp_all add: settled_def case_prod_beta Let_def split: option.splits)

lemma settled_try_encodings:
  "pending w = [] \<Longrightarrow> settled w (snd (try_encodings ev file_path encs w))"
  by (induction encs arbitrary: w) (auto simp add: settled_def split: sum.splits)

lemma settled_read:
  "pending w = [] \<Longrightarrow> settled w (snd (read_csv_with_encoding_tries ev file_path w))"
  using settled_try_encodings [of w ev file_path encodings]
  by (simp add: read_csv_with_encoding_tries_def case_prod_beta split: option.splits)

lemma insert_failed_fields [simp]:
  "pending (snd (insert_failed table_name df e w)) = []"
  "etl_logs (snd (insert_failed table_name df e w)) = etl_logs w"
  by (simp_all add: insert_failed_def Let_def)

lemma settled_truncate_step:
  "pending w = [] \<Longrightarrow> settled w (snd (truncate_step table_name w))"
  by (simp add: settled_def truncate_step_def execute_sql_def case_prod_beta commit_fields
      execute_other_fields split: sum.splits option.splits)

lemma settled_batch_insert:
  assumes "pending w = []"
  shows "settled w (snd (batch_insert table_name df query data w))"
proof -
  let ?w1 = "snd (cursor_execute (u ''BEGIN;'') [] w)"
  have p1: "pending ?w1 = []" and e1: "etl_logs ?w1 = etl_logs w"
    using assms by (simp_all add: execute_other_fields)
  have s2: "settled ?w1 (snd (execute_pages query (paginate 1000 data) ?w1))"
    using p1 by (rule settled_execute_pages)
  show ?thesis
    using s2 p1 e1
    by (simp add: batch_insert_def execute_batch_def settled_def case_prod_beta Let_def
        commit_fields split: option.splits)
qed

lemma settled_load_try:
  assumes "pending w = []"
  shows "settled w (snd (load_try ev table_name file_path w))"
proof -
  let ?w1 = "snd (read_csv_with_encoding_tries ev file_path w)"
  have s1: "settled w ?w1" using assms by (rule settled_read)
  then have p1: "pending ?w1 = []" by (simp add: settled_def)
  let ?w2 = "snd (truncate_step table_name ?w1)"
  have s2: "settled ?w1 ?w2" using p1 by (rule settled_truncate_step)
  then have p2: "pending ?w2 = []" by (simp add: settled_def)
  have s3: "settled ?w2 (snd (batch_insert table_name df query data ?w2))" for df query data
    using p2 by (rule settled_batch_insert)
  show ?thesis
    using s1 s2 s3
    by (simp add: load_try_def settled_def case_prod_beta split: sum.splits)
qed

lemma fst_next_outcome [simp]: "fst (next_outcome w) = peek (script w)"
  by (simp add: next_outcome_def peek_def split: list.splits)

lemma script_next_outcome [simp]: "script (snd (next_outcome w)) = tl (script w)"
  by (simp add: next_outcome_def split: list.splits)

lemma script_cursor_execute [simp]:
  "script (snd (cursor_execute query params w)) = tl (script w)"
  by (simp add: cursor_execute_def Let_def case_prod_beta split: option.splits)

lemma script_conn_commit [simp]: "script (snd (conn_commit w)) = tl (script w)"
  by (simp add: conn_commit_def Let_def case_prod_beta split: option.splits)

lemma script_conn_rollback [simp]: "script (conn_rollback w) = script w"
  by (simp add: conn_rollback_def)

lemma clock_cursor_execute [simp]: "clock (snd (cursor_execute query params w)) = clock w"
  by (simp add: cursor_execute_def Let_def case_prod_beta split: option.splits)

lemma audit_update_of_params [simp]:
  "audit_update_of [PTime te, PStr st, PInt n, (case em of None \<Rightarrow> PNone | Some m \<Rightarrow> PStr m), PInt i] =
   Some (AuditUpdate (nat i) te st n em)"
  by (cases em) (simp_all add: audit_update_of_def)

lemma audit_insert_of_params [simp]:
  "audit_insert_of [PStr t, PTime ts, PStr st, PInt n] i =
   Some (AuditInsert \<lparr>r_log_id = i, r_table_name = t, r_start_time = ts, r_end_time = None,
                  r_status = st, r_records_processed = n, r_error_message = None\<rparr>)"
  by (simp add: audit_insert_of_def)

lemma log_etl_start_Inr:
  assumes "log_etl_start table_name w = (Inr log_id, w1)"
  shows "pending w1 = []" and "\<exists>rec \<in> set (etl_logs w1). r_log_id rec = log_id"
proof -
  have f: "fst (log_etl_start table_name w) = Inr log_id"
    and s: "snd (log_etl_start table_name w) = w1"
    using assms by simp_all
  show "pending w1 = []"
    using f unfolding s [symmetric]
    by (auto simp add: log_etl_start_def case_prod_beta commit_fields split: option.splits sum.splits)
  show "\<exists>rec \<in> set (etl_logs w1). r_log_id rec = log_id"
    using f unfolding s [symmetric]
    by (auto simp add: log_etl_start_def case_prod_beta commit_fields cursor_execute_def
        cursor_fetchone_def Let_def split: option.splits sum.splits if_splits)
qed

lemma end_calls_log_etl_end:
  "end_calls (trace (snd (log_etl_end log_id table_name status n error_msg w))) =
   end_calls (trace w) @
     [Execute log_end_query
        [PTime (clock w), PStr status, PInt (int n),
         (case error_msg of None \<Rightarrow> PNone | Some m \<Rightarrow> PStr m), PInt (int log_id)]
        (peek (script w))]"
  by (simp add: log_etl_end_def execute_sql_def case_prod_beta split: option.splits sum.splits)

lemma log_etl_end_committed:
  assumes "peek (script w) = None"
    and "last (trace (snd (log_etl_end log_id table_name status n error_msg w))) = Commit None"
  shows "etl_logs (snd (log_etl_end log_id table_name status n error_msg w)) =
         apply_audit (foldl apply_audit (etl_logs w) (pending w))
           (AuditUpdate log_id (clock w) status (int n) error_msg)"
  using assms
  by (auto simp add: log_etl_end_def execute_sql_def case_prod_beta commit_fields
      cursor_execute_def Let_def split: option.splits sum.splits if_splits)

lemma apply_update_map:
  "apply_audit logs (AuditUpdate i te st n em) = map (set_end i te st n em) logs"
  by (simp add: set_end_def)

lemma set_end_id [simp]: "r_log_id (set_end i te st n em r) = r_log_id r"
  by (simp add: set_end_def)

lemma set_end_fields:
  "r_log_id r = i \<Longrightarrow>
     r_status (set_end i te st n em r) = st \<and> r_end_time (set_end i te st n em r) = Some te \<and>
     r_records_processed (set_end i te st n em r) = n \<and>
     r_error_message (set_end i te st n em r) = em"
  by (simp add: set_end_def)

lemma apply_update_status:
  assumes "\<exists>rec \<in> set logs. r_log_id rec = i"
  shows "(\<exists>rec \<in> set (apply_audit logs (AuditUpdate i te st n em)). r_log_id rec = i) \<and>
         (\<forall>rec \<in> set (apply_audit logs (AuditUpdate i te st n em)).
             r_log_id rec = i \<longrightarrow>
               r_status rec = st \<and> r_end_time rec = Some te \<and> r_records_processed rec = n \<and>
               r_error_message rec = em)"
proof -
  obtain rec0 where r0: "rec0 \<in> set logs" "r_log_id rec0 = i"
    using assms by blast
  have "set_end i te st n em rec0 \<in> set (map (set_end i te st n em) logs)"
    using r0(1) by simp
  then have ex: "\<exists>rec \<in> set (map (set_end i te st n em) logs). r_log_id rec = i"
    using r0(2) set_end_id by blast
  have all: "r_status rec = st \<and> r_end_time rec = Some te \<and> r_records_processed rec = n \<and>
      r_error_message rec = em"
    if mem: "rec \<in> set (map (set_end i te st n em) logs)" and rid: "r_log_id rec = i" for rec
  proof -
    obtain r' where r': "rec = set_end i te st n em r'"
      using mem by auto
    then have "r_log_id r' = i" using rid by simp
    then show ?thesis unfolding r' by (rule set_end_fields)
  qed
  show ?thesis
    unfolding apply_update_map using ex all by blast
qed



lemma load_data_from_csv_snd:
  assumes "log_etl_start table_name (logger 142 [table_name, file_path] w) = (Inr log_id, w1)"
    and "load_try ev table_name file_path w1 = ((r, n), w2)"
  shows "snd (load_data_from_csv ev table_name file_path w) =
         snd (log_etl_end log_id table_name
                (case r of Inl e \<Rightarrow> u ''failed'' | Inr ok \<Rightarrow> u ''completed'') n
                (case r of Inl e \<Rightarrow> Some (str_exc e) | Inr ok \<Rightarrow> None)
                (case r of Inl e \<Rightarrow> logger 230 [table_name, str_exc e] w2 | Inr ok \<Rightarrow> w2))"
proof (cases r)
  case (Inl e)
  then show ?thesis
    using assms by (simp add: load_data_from_csv_def Let_def split: prod.splits sum.splits)
next
  case (Inr ok)
  then show ?thesis
    using assms by (simp add: load_data_from_csv_def Let_def split: prod.splits sum.splits)
qed


section \<open>The driver\<close>

lemma check_files_exist_all:
  assumes "list_all (os_path_exists ev) (map snd mapping)"
  shows "check_files_exist ev mapping w = (True, w)"
proof -
  have "filter (\<lambda>file_path. \<not> os_path_exists ev file_path) (map snd mapping) = []"
    using assms by (simp add: filter_empty_conv list_all_iff)
  then show ?thesis
    by (simp add: check_files_exist_def)
qed

lemma attempts_main:
  assumes "list_all (os_path_exists ev) (map snd mapping)" and "psycopg2_connect ev = None"
  shows "attempts (trace (main ev mapping w)) = attempts (trace w) @ mapping"
  using assms
  by (simp add: main_def check_files_exist_all Let_def attempts_load_tables)

text \<open>
  Claim C1. Whatever the tables of the mapping and whatever each load does, the loop of
  the driver begins a load for every table, once, in the order of the mapping. In
  particular, when the load of a table raises, the driver logs the exception and goes on
  with the tables that remain, and their loads are begun as well. When all files exist
  and the connection is made, \<^verbatim>\<open>main\<close> begins exactly these loads.
\<close>

theorem driver_attempts_every_table:
  "attempts (trace (load_tables ev mapping w)) = attempts (trace w) @ mapping \<and>
   (\<forall>table_name file_path rest e w1.
      load_data_from_csv ev table_name file_path w = (Inl e, w1) \<longrightarrow>
        load_tables ev ((table_name, file_path) # rest) w =
          load_tables ev rest (logger 274 [table_name, str_exc e] w1) \<and>
        attempts (trace (load_tables ev rest (logger 274 [table_name, str_exc e] w1))) =
          attempts (trace w) @ (table_name, file_path) # rest) \<and>
   (list_all (os_path_exists ev) (map snd mapping) \<and> psycopg2_connect ev = None \<longrightarrow>
      attempts (trace (main ev mapping w)) = attempts (trace w) @ mapping)"
proof (intro conjI allI impI)
  show "attempts (trace (load_tables ev mapping w)) = attempts (trace w) @ mapping"
    by (rule attempts_load_tables)
next
  fix table_name file_path rest e w1
  assume a: "load_data_from_csv ev table_name file_path w = (Inl e, w1)"
  show "load_tables ev ((table_name, file_path) # rest) w =
      load_tables ev rest (logger 274 [table_name, str_exc e] w1)"
    using a by simp
  have "attempts (trace w1) = attempts (trace w) @ [(table_name, file_path)]"
    using attempts_load_data_from_csv [of ev table_name file_path w] a by simp
  then show "attempts (trace (load_tables ev rest (logger 274 [table_name, str_exc e] w1))) =
      attempts (trace w) @ (table_name, file_path) # rest"
    by (simp add: attempts_load_tables)
next
  assume "list_all (os_path_exists ev) (map snd mapping) \<and> psycopg2_connect ev = None"
  then show "attempts (trace (main ev mapping w)) = attempts (trace w) @ mapping"
    by (simp add: attempts_main)
qed


section \<open>Example runs\<close>

lemmas run_defs =
  load_data_from_csv_def load_try_def log_etl_start_def log_etl_end_def execute_sql_def
  read_csv_with_encoding_tries_def read_attempt_def encodings_def truncate_step_def
  batch_insert_def execute_batch_def insert_failed_def cursor_execute_def conn_commit_def
  conn_rollback_def cursor_fetchone_def next_outcome_def datetime_now_def emit_def logger_def
  audit_insert_of_def audit_update_of_def example_env_def example_world_def
  data_tuples_def to_numpy_def frame_rows_def dtypes_def find_common_type_def paginate.simps
  set_end_def truncate_query_def
  log_start_query_def log_end_query_def nl_def sp_def unreadable_message_def
  py_repr_list_def py_repr_str_def

lemma example_bad_load:
  "fst (load_data_from_csv example_env (u ''ds.md_account_d'') (u ''bad.csv'') (example_world [])) =
     Inl (ValueError (unreadable_message (u ''bad.csv'') encodings))"
  by (simp add: run_defs normalize_defs Let_def)

lemma example_two_tables:
  "map (\<lambda>r. (r_table_name r, r_status r, r_records_processed r))
     (etl_logs (load_tables example_env
        [(u ''ds.md_account_d'', u ''bad.csv''), (u ''ds.ft_posting_f'', u ''good.csv'')]
        (example_world []))) =
   [(u ''ds.md_account_d'', u ''failed'', 0), (u ''ds.ft_posting_f'', u ''completed'', 2)]"
  by (simp add: run_defs normalize_defs Let_def)


theorem driver_attempts_every_table_witness:
  "(\<exists>e w1. load_data_from_csv example_env (u ''ds.md_account_d'') (u ''bad.csv'') (example_world []) =
      (Inl e, w1)) \<and>
   attempts (trace (load_tables example_env
        [(u ''ds.md_account_d'', u ''bad.csv''), (u ''ds.ft_posting_f'', u ''good.csv'')]
        (example_world []))) =
     [(u ''ds.md_account_d'', u ''bad.csv''), (u ''ds.ft_posting_f'', u ''good.csv'')] \<and>
   attempts (trace (main example_env
        [(u ''ds.md_account_d'', u ''bad.csv''), (u ''ds.ft_posting_f'', u ''good.csv'')]
        (example_world []))) =
     [(u ''ds.md_account_d'', u ''bad.csv''), (u ''ds.ft_posting_f'', u ''good.csv'')] \<and>
   map (\<lambda>r. (r_table_name r, r_status r, r_records_processed r))
     (etl_logs (load_tables example_env
        [(u ''ds.md_account_d'', u ''bad.csv''), (u ''ds.ft_posting_f'', u ''good.csv'')]
        (example_world []))) =
   [(u ''ds.md_account_d'', u ''failed'', 0), (u ''ds.ft_posting_f'', u ''completed'', 2)]"
proof -
  have b: "\<exists>e w1. load_data_from_csv example_env (u ''ds.md_account_d'') (u ''bad.csv'')
      (example_world []) = (Inl e, w1)"
    using example_bad_load by (metis prod.collapse)
  have f: "list_all (os_path_exists example_env)
      (map snd [(u ''ds.md_account_d'', u ''bad.csv''), (u ''ds.ft_posting_f'', u ''good.csv'')])"
    and c: "psycopg2_connect example_env = None"
    by (simp_all add: example_env_def)
  have t: "attempts (trace (example_world [])) = []"
    by (simp add: example_world_def)
  show ?thesis
    using b f c t example_two_tables
      driver_attempts_every_table [of example_env
        "[(u ''ds.md_account_d'', u ''bad.csv''), (u ''ds.ft_posting_f'', u ''good.csv'')]"
        "example_world []"]
    by simp
qed






section \<open>The pages of a batch and the count of rows\<close>

lemma pages_simps [simp]:
  "page_calls [] = []"
  "page_calls (ev # evs) = (if is_page ev then ev # page_calls evs else page_calls evs)"
  "page_calls (xs @ ys) = page_calls xs @ page_calls ys"
  by (simp_all add: page_calls_def)

lemma db_calls_simps [simp]:
  "db_calls [] = []"
  "db_calls (ev # evs) = (if is_db ev then ev # db_calls evs else db_calls evs)"
  "db_calls (xs @ ys) = db_calls xs @ db_calls ys"
  by (simp_all add: db_calls_def)

lemma truncates_simps [simp]:
  "truncates [] = []"
  "truncates (ev # evs) = (if is_truncate ev then ev # truncates evs else truncates evs)"
  "truncates (xs @ ys) = truncates xs @ truncates ys"
  by (simp_all add: truncates_def)

lemma concat_paginate: "0 < n \<Longrightarrow> concat (paginate n xs) = xs"
proof (induction n xs rule: paginate.induct)
  case (1 n xs)
  show ?case
  proof (cases "xs = []")
    case True
    then show ?thesis by (simp add: paginate.simps)
  next
    case False
    then have "concat (paginate n (drop n xs)) = drop n xs"
      using 1 by simp
    then show ?thesis
      using False 1(2) by (subst paginate.simps) simp
  qed
qed

lemma pages_try_encodings:
  "page_calls (trace (snd (try_encodings ev file_path encs w))) = page_calls (trace w)"
  by (induction encs arbitrary: w) (auto split: sum.splits)

lemma pages_read:
  "page_calls (trace (snd (read_csv_with_encoding_tries ev file_path w))) = page_calls (trace w)"
  using pages_try_encodings [of ev file_path encodings w]
  by (simp add: read_csv_with_encoding_tries_def case_prod_beta split: option.splits)

lemma pages_truncate_step:
  "page_calls (trace (snd (truncate_step table_name w))) = page_calls (trace w)"
  by (simp add: truncate_step_def execute_sql_def case_prod_beta split: sum.splits option.splits)

lemma pages_insert_failed:
  "page_calls (trace (snd (insert_failed table_name df e w))) = page_calls (trace w)"
  by (simp add: insert_failed_def Let_def)

lemma pages_execute_pages:
  "\<exists>X. page_calls (trace (snd (execute_pages query pgs w))) = page_calls (trace w) @ X \<and>
       (case fst (execute_pages query pgs w) of
          None \<Rightarrow> X = map (\<lambda>pg. ExecutePage query pg None) pgs
        | Some e \<Rightarrow> list_ex page_failed X) \<and>
       set (concat (map sent_rows X)) \<subseteq> set (concat pgs)"
proof (induction pgs arbitrary: w)
  case Nil
  then show ?case by simp
next
  case (Cons pg pgs)
  show ?case
  proof (cases "peek (script w)")
    case (Some e)
    then show ?thesis
      by (simp add: case_prod_beta Let_def)
  next
    case None
    let ?w2 = "emit (ExecutePage query pg None) (snd (next_outcome w))"
    obtain X where X: "page_calls (trace (snd (execute_pages query pgs ?w2))) = page_calls (trace ?w2) @ X"
      "case fst (execute_pages query pgs ?w2) of
          None \<Rightarrow> X = map (\<lambda>pg. ExecutePage query pg None) pgs
        | Some e \<Rightarrow> list_ex page_failed X"
      "set (concat (map sent_rows X)) \<subseteq> set (concat pgs)"
      using Cons.IH [of ?w2] by blast
    have e: "execute_pages query (pg # pgs) w = execute_pages query pgs ?w2"
      using None by (simp add: case_prod_beta Let_def)
    have "page_calls (trace (snd (execute_pages query (pg # pgs) w))) =
        page_calls (trace w) @ (ExecutePage query pg None # X)"
      unfolding e X(1) by simp
    moreover have "case fst (execute_pages query (pg # pgs) w) of
          None \<Rightarrow> ExecutePage query pg None # X = map (\<lambda>pg. ExecutePage query pg None) (pg # pgs)
        | Some e \<Rightarrow> list_ex page_failed (ExecutePage query pg None # X)"
      unfolding e using X(2) by (simp split: option.splits)
    moreover have "set (concat (map sent_rows (ExecutePage query pg None # X))) \<subseteq>
        set (concat (pg # pgs))"
      using X(3) by auto
    ultimately show ?thesis by blast
  qed
qed

lemma page_rows_ok [simp]:
  "concat (map page_rows (map (\<lambda>pg. ExecutePage query pg None) pgs)) = concat pgs"
  by (induction pgs) simp_all

lemma page_failed_ok [simp]:
  "\<not> list_ex page_failed (map (\<lambda>pg. ExecutePage query pg None) pgs)"
  by (induction pgs) simp_all

lemma db_calls_insert_failed:
  "db_calls (trace (snd (insert_failed table_name df e w))) = db_calls (trace w) @ [Rollback]"
  by (simp add: insert_failed_def Let_def)

lemma batch_insert_pages:
  "\<exists>X. page_calls (trace (snd (batch_insert table_name df query data w))) = page_calls (trace w) @ X \<and>
       snd (fst (batch_insert table_name df query data w)) =
         (if list_ex page_failed X then 0 else length (concat (map page_rows X))) \<and>
       set (concat (map sent_rows X)) \<subseteq> set data \<and>
       (fst (fst (batch_insert table_name df query data w)) = Inr () \<longrightarrow>
          \<not> list_ex page_failed X \<and> concat (map page_rows X) = data \<and>
          last (db_calls (trace (snd (batch_insert table_name df query data w)))) = Commit None)"
proof (cases "peek (script w)")
  case (Some e)
  then show ?thesis
    by (simp add: batch_insert_def case_prod_beta)
next
  case None
  let ?w1 = "snd (cursor_execute (u ''BEGIN;'') [] w)"
  let ?P = "execute_pages query (paginate 1000 data) ?w1"
  obtain X where X: "page_calls (trace (snd ?P)) = page_calls (trace ?w1) @ X"
    "case fst ?P of None \<Rightarrow> X = map (\<lambda>pg. ExecutePage query pg None) (paginate 1000 data)
     | Some e \<Rightarrow> list_ex page_failed X"
    "set (concat (map sent_rows X)) \<subseteq> set (concat (paginate 1000 data))"
    using pages_execute_pages [of query "paginate 1000 data" ?w1] by blast
  have c: "concat (paginate 1000 data) = data"
    by (simp add: concat_paginate)
  have p1: "page_calls (trace ?w1) = page_calls (trace w)"
    by simp
  show ?thesis
  proof (cases "fst ?P")
    case (Some e)
    then have "list_ex page_failed X" using X(2) by simp
    then show ?thesis
      using None Some X(1,3) c p1
      by (intro exI [of _ X])
        (simp add: batch_insert_def execute_batch_def case_prod_beta pages_insert_failed)
  next
    case ok: None
    then have x: "X = map (\<lambda>pg. ExecutePage query pg None) (paginate 1000 data)"
      using X(2) by simp
    have r: "concat (map page_rows X) = data"
      unfolding x using c by (simp only: page_rows_ok)
    have nf: "\<not> list_ex page_failed X"
      unfolding x by (rule page_failed_ok)
    show ?thesis
      using None ok X(1,3) c p1 r nf
      by (intro exI [of _ X])
        (simp add: batch_insert_def execute_batch_def case_prod_beta Let_def pages_insert_failed
          split: option.splits)
  qed
qed




lemma na_to_none_not_nan:
  "(if isna_elem x then Cell CNone else x) \<noteq> Cell CNaN \<and>
   (if isna_elem x then Cell CNone else x) \<noteq> Cell CNaT \<and>
   (if isna_elem x then Cell CNone else x) \<noteq> Cell CNA"
proof (cases x)
  case (Cell c)
  then show ?thesis by (cases c) simp_all
next
  case (FloatOf i)
  then show ?thesis by simp
qed

lemma data_tuples_no_nan:
  assumes "row \<in> set (data_tuples df)" and "c \<in> set row"
  shows "c \<noteq> Cell CNaN \<and> c \<noteq> Cell CNaT \<and> c \<noteq> Cell CNA"
proof -
  define f where "f = (\<lambda>x. if isna_elem x then Cell CNone else x)"
  have "data_tuples df = map (map f) (to_numpy df)"
    by (simp add: data_tuples_def f_def)
  then obtain r0 where "row = map f r0"
    using assms(1) by auto
  then obtain x where "c = f x"
    using assms(2) by auto
  then show ?thesis
    using na_to_none_not_nan [of x] by (simp add: f_def)
qed

lemma load_try_pages:
  "\<exists>X. page_calls (trace (snd (load_try ev table_name file_path w))) = page_calls (trace w) @ X \<and>
       snd (fst (load_try ev table_name file_path w)) =
         (if list_ex page_failed X then 0 else length (concat (map page_rows X))) \<and>
       (\<forall>row \<in> set (concat (map sent_rows X)). \<forall>c \<in> set row.
           c \<noteq> Cell CNaN \<and> c \<noteq> Cell CNaT \<and> c \<noteq> Cell CNA) \<and>
       (fst (fst (load_try ev table_name file_path w)) = Inr () \<longrightarrow>
          \<not> list_ex page_failed X \<and>
          last (db_calls (trace (snd (load_try ev table_name file_path w)))) = Commit None \<and>
          (\<exists>df0 df. fst (read_csv_with_encoding_tries ev file_path w) = Inr df0 \<and>
             normalize table_name df0 = Inr df \<and> concat (map page_rows X) = data_tuples df))"
proof -
  let ?R = "read_csv_with_encoding_tries ev file_path w"
  have none: ?thesis if "load_try ev table_name file_path w = ((Inl e, 0), w')"
    and "page_calls (trace w') = page_calls (trace w)" for e w'
    using that by (intro exI [of _ "[]"]) simp
  show ?thesis
  proof (cases "fst ?R")
    case (Inl e)
    then show ?thesis
      by (intro none [of e "snd ?R"]) (simp_all add: load_try_def case_prod_beta pages_read)
  next
    case r: (Inr df0)
    show ?thesis
    proof (cases "normalize table_name df0")
      case (Inl e)
      then show ?thesis
        using r
        by (intro none [of e "snd ?R"]) (simp_all add: load_try_def case_prod_beta pages_read)
    next
      case n: (Inr df)
      let ?T = "truncate_step table_name (snd ?R)"
      have pt: "page_calls (trace (snd ?T)) = page_calls (trace w)"
        by (simp add: pages_truncate_step pages_read)
      show ?thesis
      proof (cases "fst ?T")
        case (Inl e)
        then show ?thesis
          using r n pt
          by (intro none [of e "snd ?T"]) (simp_all add: load_try_def case_prod_beta)
      next
        case t: (Inr ok)
        let ?q = "insert_query PRIMARY_KEYS table_name (columns df)"
        let ?B = "batch_insert table_name df ?q (data_tuples df) (snd ?T)"
        have l: "load_try ev table_name file_path w = ?B"
          using r n t by (simp add: load_try_def case_prod_beta)
        obtain X where X: "page_calls (trace (snd ?B)) = page_calls (trace (snd ?T)) @ X"
          "snd (fst ?B) = (if list_ex page_failed X then 0 else length (concat (map page_rows X)))"
          "set (concat (map sent_rows X)) \<subseteq> set (data_tuples df)"
          "fst (fst ?B) = Inr () \<longrightarrow>
             \<not> list_ex page_failed X \<and> concat (map page_rows X) = data_tuples df \<and>
             last (db_calls (trace (snd ?B))) = Commit None"
          using batch_insert_pages [of table_name df ?q "data_tuples df" "snd ?T"] by blast
        have nn: "\<forall>row \<in> set (concat (map sent_rows X)). \<forall>c \<in> set row.
            c \<noteq> Cell CNaN \<and> c \<noteq> Cell CNaT \<and> c \<noteq> Cell CNA"
          using X(3) data_tuples_no_nan by blast
        show ?thesis
          unfolding l
          using X(1,2,4) nn r n pt by (intro exI [of _ X]) simp
      qed
    qed
  qed
qed

lemma load_end_world:
  assumes "log_etl_start table_name (logger 142 [table_name, file_path] w) = (Inr log_id, w1)"
    and "load_try ev table_name file_path w1 = ((r, n), w2)"
    and "load_data_from_csv ev table_name file_path w = (res, w')"
    and "st = (case r of Inl e \<Rightarrow> u ''failed'' | Inr ok \<Rightarrow> u ''completed'')"
    and "em = (case r of Inl e \<Rightarrow> Some (str_exc e) | Inr ok \<Rightarrow> None)"
    and "w3 = (case r of Inl e \<Rightarrow> logger 230 [table_name, str_exc e] w2 | Inr ok \<Rightarrow> w2)"
  shows "w' = snd (log_etl_end log_id table_name st n em w3)"
    and "pending w3 = []"
    and "etl_logs w3 = etl_logs w1"
    and "end_calls (trace w3) = end_calls (trace w)"
    and "\<exists>rec \<in> set (etl_logs w1). r_log_id rec = log_id"
proof -
  show "w' = snd (log_etl_end log_id table_name st n em w3)"
    using load_data_from_csv_snd [OF assms(1,2)] assms(3) by (simp add: assms(4,5,6))
  have w2: "w2 = snd (load_try ev table_name file_path w1)"
    using assms(2) by simp
  have w1: "w1 = snd (log_etl_start table_name (logger 142 [table_name, file_path] w))"
    using assms(1) by simp
  have p1: "pending w1 = []"
    using log_etl_start_Inr [OF assms(1)] by simp
  show "\<exists>rec \<in> set (etl_logs w1). r_log_id rec = log_id"
    using log_etl_start_Inr [OF assms(1)] by simp
  have s2: "settled w1 w2"
    unfolding w2 using p1 by (rule settled_load_try)
  show "pending w3 = []" and "etl_logs w3 = etl_logs w1"
    using s2 by (simp_all add: assms(6) settled_def split: sum.splits)
  have c1: "end_calls (trace w1) = end_calls (trace w)"
    unfolding w1 by (simp add: end_calls_log_etl_start)
  have c2: "end_calls (trace w2) = end_calls (trace w1)"
    unfolding w2 by (rule end_calls_load_try)
  show "end_calls (trace w3) = end_calls (trace w)"
    using c1 c2 by (simp add: assms(6) split: sum.splits)
qed

text \<open>
  Claim C4, as amended. Take a load whose start was recorded. The count that its one
  end-of-run call writes is the value of \<^verbatim>\<open>records_processed\<close> when the \<^verbatim>\<open>try\<close> is left: 0
  when a page of the batch raised, and otherwise the number of rows in the pages that
  were executed (none when the load failed before the batch). The status is
  \<^verbatim>\<open>completed\<close> only when the body returned, and then no page raised and the last call of
  the body to the database is a commit that went through: the count is the number of
  rows committed. When the update of the run log commits, the record holds that count.
  The count is not tied to the commit of the batch: it is set before that commit.
\<close>

theorem records_processed_counts_executed_rows:
  assumes "log_etl_start table_name (logger 142 [table_name, file_path] w) = (Inr log_id, w1)"
    and "load_try ev table_name file_path w1 = ((r, n), w2)"
    and "load_data_from_csv ev table_name file_path w = (res, w')"
  shows "\<exists>X te st em ro.
           page_calls (trace w2) = page_calls (trace w1) @ X \<and>
           n = (if list_ex page_failed X then 0 else length (concat (map page_rows X))) \<and>
           end_calls (trace w') = end_calls (trace w) @
             [Execute log_end_query [PTime te, PStr st, PInt (int n), em, PInt (int log_id)] ro] \<and>
           (st = u ''completed'' \<longrightarrow>
              r = Inr () \<and> \<not> list_ex page_failed X \<and> last (db_calls (trace w2)) = Commit None) \<and>
           (ro = None \<and> last (trace w') = Commit None \<longrightarrow>
              (\<forall>rec \<in> set (etl_logs w'). r_log_id rec = log_id \<longrightarrow>
                 r_records_processed rec = int n))"
proof -
  define st where "st = (case r of Inl e \<Rightarrow> u ''failed'' | Inr ok \<Rightarrow> u ''completed'')"
  define em where "em = (case r of Inl e \<Rightarrow> Some (str_exc e) | Inr ok \<Rightarrow> None)"
  define w3 where
    "w3 = (case r of Inl e \<Rightarrow> logger 230 [table_name, str_exc e] w2 | Inr ok \<Rightarrow> w2)"
  note h = load_end_world [OF assms st_def em_def w3_def]
  have t: "fst (fst (load_try ev table_name file_path w1)) = r"
    "snd (fst (load_try ev table_name file_path w1)) = n"
    "snd (load_try ev table_name file_path w1) = w2"
    using assms(2) by simp_all
  obtain X where X: "page_calls (trace w2) = page_calls (trace w1) @ X"
    "n = (if list_ex page_failed X then 0 else length (concat (map page_rows X)))"
    "r = Inr () \<longrightarrow> \<not> list_ex page_failed X \<and> last (db_calls (trace w2)) = Commit None"
    using load_try_pages [of ev table_name file_path w1] unfolding t by blast
  have calls: "end_calls (trace w') = end_calls (trace w) @
      [Execute log_end_query
         [PTime (clock w3), PStr st, PInt (int n),
          (case em of None \<Rightarrow> PNone | Some m \<Rightarrow> PStr m), PInt (int log_id)]
         (peek (script w3))]"
    unfolding h(1) end_calls_log_etl_end h(4) by (rule refl)
  have comp: "r = Inr ()" if "st = u ''completed''"
    using that by (cases r) (simp_all add: st_def u_def)
  have rec: "r_records_processed rec = int n"
    if ok: "peek (script w3) = None" and lst: "last (trace w') = Commit None"
      and m: "rec \<in> set (etl_logs w')" and i: "r_log_id rec = log_id" for rec
  proof -
    have "etl_logs w' =
        apply_audit (foldl apply_audit (etl_logs w3) (pending w3))
          (AuditUpdate log_id (clock w3) st (int n) em)"
      unfolding h(1) using ok lst [unfolded h(1)] by (rule log_etl_end_committed)
    then have logs: "etl_logs w' =
        apply_audit (etl_logs w1) (AuditUpdate log_id (clock w3) st (int n) em)"
      by (simp only: h(2,3) foldl_Nil)
    note a = apply_update_status [OF h(5), of "clock w3" st "int n" em, folded logs]
    show ?thesis using a m i by blast
  qed
  show ?thesis
  proof (rule exI [where x = X], rule exI [where x = "clock w3"], rule exI [where x = st],
      rule exI [where x = "case em of None \<Rightarrow> PNone | Some m \<Rightarrow> PStr m"],
      rule exI [where x = "peek (script w3)"], intro conjI impI ballI)
    show "page_calls (trace w2) = page_calls (trace w1) @ X" by (rule X(1))
    show "n = (if list_ex page_failed X then 0 else length (concat (map page_rows X)))"
      by (rule X(2))
    show "end_calls (trace w') = end_calls (trace w) @
      [Execute log_end_query
         [PTime (clock w3), PStr st, PInt (int n),
          (case em of None \<Rightarrow> PNone | Some m \<Rightarrow> PStr m), PInt (int log_id)]
         (peek (script w3))]"
      by (rule calls)
    show "r = Inr ()" if "st = u ''completed''"
      using that by (rule comp)
    show "\<not> list_ex page_failed X" if "st = u ''completed''"
      using comp [OF that] X(3) by simp
    show "last (db_calls (trace w2)) = Commit None" if "st = u ''completed''"
      using comp [OF that] X(3) by simp
    show "r_records_processed rec = int n"
      if "peek (script w3) = None \<and> last (trace w') = Commit None"
        and "rec \<in> set (etl_logs w')" and "r_log_id rec = log_id" for rec
      using that rec by blast
  qed
qed

text \<open>
  Claim C4 as stated fails: when every page of the batch is executed and the commit of
  the batch raises, the transaction is rolled back, the attempt is recorded as
  \<^verbatim>\<open>failed\<close>, and the count written is the number of rows of the batch, not 0.
\<close>

theorem records_processed_after_failed_commit_counterexample:
  "map (\<lambda>r. (r_status r, r_records_processed r))
     (etl_logs (snd (load_data_from_csv example_env (u ''ds.md_account_d'') (u ''good.csv'')
        (example_world [None, None, None, None, Some (Error (u ''commit failed''))])))) =
     [(u ''failed'', 2)] \<and>
   filter (\<lambda>ev. case ev of Commit r \<Rightarrow> True | Rollback \<Rightarrow> True | _ \<Rightarrow> False)
     (trace (snd (load_data_from_csv example_env (u ''ds.md_account_d'') (u ''good.csv'')
        (example_world [None, None, None, None, Some (Error (u ''commit failed''))])))) =
     [Commit None, Commit (Some (Error (u ''commit failed''))), Rollback, Commit None]"
  by (simp add: run_defs normalize_defs Let_def)

lemma example_ok_start:
  "fst (log_etl_start (u ''ds.md_account_d'')
         (logger 142 [u ''ds.md_account_d'', u ''good.csv''] (example_world []))) = Inr 1"
  by (simp add: run_defs normalize_defs Let_def)

lemma example_ok_try:
  "fst (load_try example_env (u ''ds.md_account_d'') (u ''good.csv'')
         (snd (log_etl_start (u ''ds.md_account_d'')
            (logger 142 [u ''ds.md_account_d'', u ''good.csv''] (example_world []))))) =
   (Inr (), 2)"
  by (simp add: run_defs normalize_defs Let_def)

theorem records_processed_counts_executed_rows_witness:
  "\<exists>X te st em ro.
     page_calls (trace (snd (load_try example_env (u ''ds.md_account_d'') (u ''good.csv'')
         (snd (log_etl_start (u ''ds.md_account_d'')
            (logger 142 [u ''ds.md_account_d'', u ''good.csv''] (example_world []))))))) =
       page_calls (trace (snd (log_etl_start (u ''ds.md_account_d'')
            (logger 142 [u ''ds.md_account_d'', u ''good.csv''] (example_world []))))) @ X \<and>
     2 = (if list_ex page_failed X then 0 else length (concat (map page_rows X))) \<and>
     end_calls (trace (snd (load_data_from_csv example_env (u ''ds.md_account_d'') (u ''good.csv'')
         (example_world [])))) =
       [Execute log_end_query [PTime te, PStr st, PInt 2, em, PInt 1] ro]"
proof -
  let ?W = "example_world []"
  let ?A = "u ''ds.md_account_d''"
  let ?G = "u ''good.csv''"
  obtain w1 where s1: "log_etl_start ?A (logger 142 [?A, ?G] ?W) = (Inr 1, w1)"
    using example_ok_start by (metis prod.collapse)
  then have w1: "w1 = snd (log_etl_start ?A (logger 142 [?A, ?G] ?W))"
    by simp
  obtain w2 where t2: "load_try example_env ?A ?G w1 = ((Inr (), 2), w2)"
    using example_ok_try unfolding w1 [symmetric] by (metis prod.collapse)
  obtain res w' where l: "load_data_from_csv example_env ?A ?G ?W = (res, w')"
    by (metis prod.collapse)
  have e: "end_calls (trace ?W) = []"
    by (simp add: example_world_def)
  obtain X te st em ro where
    "page_calls (trace w2) = page_calls (trace w1) @ X"
    "2 = (if list_ex page_failed X then 0 else length (concat (map page_rows X)))"
    "end_calls (trace w') = end_calls (trace ?W) @
       [Execute log_end_query [PTime te, PStr st, PInt (int 2), em, PInt (int 1)] ro]"
    using records_processed_counts_executed_rows [OF s1 t2 l] by blast
  then show ?thesis
    using t2 l e unfolding w1 [symmetric] by auto
qed




section \<open>The truncation of the posting table\<close>

lemma queries_distinct_sym [simp]:
  "log_end_query \<noteq> truncate_query" "log_start_query \<noteq> truncate_query"
  using queries_distinct(1,2) by (simp_all add: eq_commute [of log_end_query]
      eq_commute [of log_start_query])
























end
